theory Spec2Isabelle
  imports Complex_Main "HOL-Library.Product_Lexorder"
begin

section \<open>Common Python notions\<close>

text \<open>
  A Python \<open>str\<close> is a sequence of Unicode code points: \<open>len\<close> counts code points and
  comparisons of characters compare code points. Scores and confidences are Python floats;
  they are modelled as real numbers.
\<close>

type_synonym ustring = "nat list"

datatype py_error = ZeroDivisionError | IndexError | KeyError | ValueError | ReadError

text \<open>\<open>keyword in term\<close> for two strings: substring test.\<close>

fun startswith :: "ustring \<Rightarrow> ustring \<Rightarrow> bool" where
  "startswith [] s = True"
| "startswith (k # ks) [] = False"
| "startswith (k # ks) (c # cs) = (k = c \<and> startswith ks cs)"

fun py_in :: "ustring \<Rightarrow> ustring \<Rightarrow> bool" where
  "py_in kw [] = (kw = [])"
| "py_in kw (c # cs) = (startswith kw (c # cs) \<or> py_in kw cs)"

text \<open>\<open>xs[:k]\<close>: a negative bound counts from the end.\<close>

definition py_slice_to :: "'a list \<Rightarrow> int \<Rightarrow> 'a list" where
  "py_slice_to xs k =
     (if 0 \<le> k then take (nat k) xs else take (length xs - nat (- k)) xs)"

text \<open>\<open>xs[i]\<close>: a negative index counts from the end; out of range raises.\<close>

definition py_index :: "'a list \<Rightarrow> int \<Rightarrow> py_error + 'a" where
  "py_index xs i =
     (if 0 \<le> i \<and> i < int (length xs) then Inr (xs ! nat i)
      else if i < 0 \<and> - i \<le> int (length xs) then Inr (xs ! nat (int (length xs) + i))
      else Inl IndexError)"

text \<open>
  \<open>xs.sort(key=f, reverse=True)\<close>: stable, descending; elements with equal keys keep
  their original relative order.
\<close>

definition sort_reverse :: "('a \<Rightarrow> 'k::linorder) \<Rightarrow> 'a list \<Rightarrow> 'a list" where
  "sort_reverse f xs = rev (sort_key f (rev xs))"

section \<open>pdf\_extractor.py\<close>

datatype extraction_type = Pattern | Morphological

text \<open>
  The dictionaries produced by the extractor; \<open>frequency\<close> is absent until
  \<open>extract_terms_from_pdfs\<close> adds it.
\<close>

record term_info =
  "term" :: ustring
  type :: extraction_type
  confidence :: real
  frequency :: "int option"

text \<open>A token of the morphological analyser: \<open>surface()\<close> and \<open>part_of_speech()[0]\<close>.\<close>

record token =
  surface :: ustring
  part_of_speech :: ustring

text \<open>The four entries of \<open>self.term_patterns\<close>, in order; \<open>Abbreviation\<close> is \<^verbatim>\<open>[A-Z]{2,}\<close>.\<close>

datatype term_pattern =
  Katakana3       \<comment> \<open>three or more katakana characters (U+30A1 to U+30F4)\<close>
| KanjiSuffix     \<comment> \<open>two or more kanji (U+4E00 to U+9FAF), then one character of the suffix class\<close>
| Abbreviation    \<comment> \<open>two or more capital letters\<close>
| NumberedClass   \<comment> \<open>decimal digits, then one character of the classifier class\<close>

definition term_patterns :: "term_pattern list" where
  "term_patterns = [Katakana3, KanjiSuffix, Abbreviation, NumberedClass]"

text \<open>
  The libraries the extractor calls: the regular-expression engine (\<open>re.findall\<close> for a
  pattern of the table, and the class \<open>\d\<close> of decimal digits) and the tokenizer.
\<close>

record extractor_env =
  re_findall :: "term_pattern \<Rightarrow> ustring \<Rightarrow> ustring list"
  re_digit :: "nat \<Rightarrow> bool"
  tokenize :: "ustring \<Rightarrow> token list"

definition construction_keywords :: "ustring list" where
  "construction_keywords =
    [[24037, 20107], [26045, 24037], [27083, 36896], [26448, 26009], [35373, 20633],
     [31649, 29702], [22522, 30990], [36527, 20307], [20181, 19978, 12370], [37197, 31649],
     [37197, 32218], [38450, 27700], [26029, 29105], [32784, 38663], [20813, 38663],
     [21046, 38663], [37444, 31563], [12467, 12531, 12463, 12522, 12540, 12488],
     [37628, 26448], [26408, 26448], [30707, 26448], [12479, 12452, 12523],
     [12460, 12521, 12473], [24314, 31689], [22303, 26408], [35373, 35336], [30435, 29702],
     [26908, 26619], [35430, 39443], [21697, 36074], [23433, 20840]]"

text \<open>The part of speech compared with: the two kanji for "noun" (U+540D, U+8A5E).\<close>

definition noun :: ustring where
  "noun = [21517, 35422]"

definition is_katakana :: "nat \<Rightarrow> bool" where
  "is_katakana c = (12449 \<le> c \<and> c \<le> 12532)"

text \<open>
  The character class of the pattern \<^verbatim>\<open>\d+[mm|cm|m|kg|t|N|Pa|MPa|...]\<close>, which ends with
  three kanji classifiers (U+7D1A, U+7A2E, U+53F7): the brackets make it a set of single
  characters, the bar included.
\<close>

definition unit_chars :: "nat list" where
  "unit_chars = [109, 124, 99, 107, 103, 116, 78, 80, 97, 77, 32026, 31278, 21495]"

text \<open>
  \<open>re.search\<close> of that pattern finds a match exactly when a decimal digit is directly
  followed by a character of the class.
\<close>

fun re_search_units :: "(nat \<Rightarrow> bool) \<Rightarrow> ustring \<Rightarrow> bool" where
  "re_search_units d (a # b # cs) = ((d a \<and> b \<in> set unit_chars) \<or> re_search_units d (b # cs))"
| "re_search_units d cs = False"

definition is_construction_term :: "extractor_env \<Rightarrow> ustring \<Rightarrow> py_error + bool" where
  "is_construction_term env t =
     (if list_ex (\<lambda>keyword. py_in keyword t) construction_keywords then Inr True
      else if length t = 0 then Inl ZeroDivisionError
      else if real (length (filter is_katakana t)) / real (length t) > 0.7 then Inr True
      else if re_search_units (re_digit env) t then Inr True
      else Inr False)"

text \<open>The loop over the matches of one pattern.\<close>

fun add_matches ::
  "ustring list \<Rightarrow> term_info list \<times> ustring set \<Rightarrow> term_info list \<times> ustring set" where
  "add_matches [] (terms, seen_terms) = (terms, seen_terms)"
| "add_matches (m # ms) (terms, seen_terms) =
     (if m \<notin> seen_terms \<and> length m \<ge> 2
      then add_matches ms
             (terms @ [\<lparr>term = m, type = Pattern, confidence = 0.7, frequency = None\<rparr>],
              insert m seen_terms)
      else add_matches ms (terms, seen_terms))"

text \<open>The loop over the patterns.\<close>

fun pattern_extraction ::
  "extractor_env \<Rightarrow> term_pattern list \<Rightarrow> ustring \<Rightarrow> term_info list \<times> ustring set
     \<Rightarrow> term_info list \<times> ustring set" where
  "pattern_extraction env [] text s = s"
| "pattern_extraction env (p # ps) text s =
     pattern_extraction env ps text (add_matches (re_findall env p text) s)"

text \<open>
  The loop over the tokens; the state is \<open>(terms, seen_terms, current_phrase)\<close>. The
  heuristic is only called when the phrase has not been seen (\<open>and\<close> short-circuits).
\<close>

fun noun_phrases ::
  "extractor_env \<Rightarrow> token list \<Rightarrow> term_info list \<times> ustring set \<times> ustring list
     \<Rightarrow> py_error + (term_info list \<times> ustring set \<times> ustring list)" where
  "noun_phrases env [] s = Inr s"
| "noun_phrases env (tok # toks) (terms, seen_terms, current_phrase) =
     (if part_of_speech tok = noun
      then noun_phrases env toks (terms, seen_terms, current_phrase @ [surface tok])
      else if length current_phrase \<ge> 2
      then (let phrase = concat current_phrase in
            if phrase \<notin> seen_terms
            then (case is_construction_term env phrase of
                    Inl e \<Rightarrow> Inl e
                  | Inr True \<Rightarrow>
                      noun_phrases env toks
                        (terms @ [\<lparr>term = phrase, type = Morphological,
                                   confidence = 0.8, frequency = None\<rparr>],
                         insert phrase seen_terms, [])
                  | Inr False \<Rightarrow> noun_phrases env toks (terms, seen_terms, []))
            else noun_phrases env toks (terms, seen_terms, []))
      else noun_phrases env toks (terms, seen_terms, []))"

text \<open>The check of the last phrase, after the loop.\<close>

definition last_phrase ::
  "extractor_env \<Rightarrow> term_info list \<times> ustring set \<times> ustring list \<Rightarrow> py_error + term_info list" where
  "last_phrase env s =
     (case s of (terms, seen_terms, current_phrase) \<Rightarrow>
        if length current_phrase \<ge> 2
        then (let phrase = concat current_phrase in
              if phrase \<notin> seen_terms
              then (case is_construction_term env phrase of
                      Inl e \<Rightarrow> Inl e
                    | Inr True \<Rightarrow>
                        Inr (terms @ [\<lparr>term = phrase, type = Morphological,
                                       confidence = 0.8, frequency = None\<rparr>])
                    | Inr False \<Rightarrow> Inr terms)
              else Inr terms)
        else Inr terms)"

definition extract_terms_from_text :: "extractor_env \<Rightarrow> ustring \<Rightarrow> py_error + term_info list" where
  "extract_terms_from_text env text =
     (case pattern_extraction env term_patterns text ([], {}) of (terms, seen_terms) \<Rightarrow>
        (case noun_phrases env (tokenize env text) (terms, seen_terms, []) of
           Inl e \<Rightarrow> Inl e
         | Inr s \<Rightarrow> last_phrase env s))"


text \<open>
  \<open>extract_terms_from_pdfs\<close>. The argument is the text of each PDF file of the folder,
  as \<open>extract_text_from_pdf\<close> returned it. The counting loop over the terms of one file:
\<close>

fun count_frequency ::
  "term_info list \<Rightarrow> term_info list \<times> (ustring \<rightharpoonup> int)
     \<Rightarrow> term_info list \<times> (ustring \<rightharpoonup> int)" where
  "count_frequency [] s = s"
| "count_frequency (ti # tis) (all_terms, term_frequency) =
     (case term_frequency (term ti) of
        Some n \<Rightarrow> count_frequency tis (all_terms, term_frequency(term ti \<mapsto> n + 1))
      | None \<Rightarrow> count_frequency tis (all_terms @ [ti], term_frequency(term ti \<mapsto> 1)))"

text \<open>The loop over the files; an exception of the extraction leaves the loop.\<close>

fun pdf_loop ::
  "extractor_env \<Rightarrow> ustring list \<Rightarrow> term_info list \<times> (ustring \<rightharpoonup> int)
     \<Rightarrow> py_error + (term_info list \<times> (ustring \<rightharpoonup> int))" where
  "pdf_loop env [] s = Inr s"
| "pdf_loop env (text # texts) s =
     (case extract_terms_from_text env text of
        Inl e \<Rightarrow> Inl e
      | Inr terms \<Rightarrow> pdf_loop env texts (count_frequency terms s))"

text \<open>The loop that stores the frequency and boosts the confidence.\<close>

definition boost :: "int \<Rightarrow> term_info \<Rightarrow> term_info" where
  "boost f ti =
     (let ti1 = ti\<lparr>frequency := Some f\<rparr>
      in if f > 3 then ti1\<lparr>confidence := min 1.0 (confidence ti1 + 0.1)\<rparr> else ti1)"

fun add_frequency :: "(ustring \<rightharpoonup> int) \<Rightarrow> term_info list \<Rightarrow> py_error + term_info list" where
  "add_frequency term_frequency [] = Inr []"
| "add_frequency term_frequency (ti # tis) =
     (case term_frequency (term ti) of
        None \<Rightarrow> Inl KeyError
      | Some f \<Rightarrow>
          (case add_frequency term_frequency tis of
             Inl e \<Rightarrow> Inl e
           | Inr rest \<Rightarrow> Inr (boost f ti # rest)))"

text \<open>The key of the final sort, \<open>(x['frequency'], x['confidence'])\<close>.\<close>

definition frequency_confidence :: "term_info \<Rightarrow> int \<times> real" where
  "frequency_confidence x = (case frequency x of Some f \<Rightarrow> f | None \<Rightarrow> 0, confidence x)"

definition extract_terms_from_pdfs :: "extractor_env \<Rightarrow> ustring list \<Rightarrow> py_error + term_info list" where
  "extract_terms_from_pdfs env texts =
     (case pdf_loop env texts ([], Map.empty) of
        Inl e \<Rightarrow> Inl e
      | Inr (all_terms, term_frequency) \<Rightarrow>
          (case add_frequency term_frequency all_terms of
             Inl e \<Rightarrow> Inl e
           | Inr ts \<Rightarrow> Inr (sort_reverse frequency_confidence ts)))"

section \<open>term\_database.py\<close>

text \<open>The dictionaries of \<open>self.terms_data\<close>.\<close>

record term_data =
  rec_id :: nat
  rec_term :: ustring
  rec_aliases :: "ustring list"
  rec_category :: ustring
  rec_confidence :: real
  rec_frequency :: int
  rec_context :: ustring

text \<open>A search result: a copy of the dictionary with its \<open>score\<close>.\<close>

type_synonym scored = "term_data \<times> real"

text \<open>A document of the full-text index, with the identifier it stores.\<close>

record whoosh_doc =
  doc_id :: nat
  doc_term :: ustring
  doc_aliases :: ustring
  doc_category :: ustring
  doc_context :: ustring

text \<open>
  The engine: the vector index holds the vectors in the order they were added (\<open>None\<close>
  before the first build or load), the full-text index holds its documents.
\<close>

record term_database =
  faiss_index :: "real list list option"
  terms_data :: "term_data list"
  whoosh_index :: "whoosh_doc list"

text \<open>The files of \<open>db_path\<close> that \<open>save\<close> writes and \<open>load\<close> reads.\<close>

datatype 'a disk_file = Missing | Unreadable | Stored 'a

record disk =
  faiss_file :: "real list list disk_file"
  terms_file :: "term_data list disk_file"
  metadata_file :: "(nat \<times> nat) disk_file"

text \<open>
  The libraries the engine calls: the sentence encoder, the search of the vector index
  (for each of the \<open>k\<close> neighbours asked for, a label and a distance), the search of the
  full-text index (for each hit, the stored identifier and the score), and the order in
  which a Python \<open>set\<close> built by the given insertions is iterated.
\<close>

record db_env =
  encode :: "ustring \<Rightarrow> real list"
  faiss_search :: "real list list \<Rightarrow> real list \<Rightarrow> int \<Rightarrow> (int \<times> real) list"
  whoosh_search :: "whoosh_doc list \<Rightarrow> ustring \<Rightarrow> int \<Rightarrow> (nat \<times> real) list"
  set_order :: "ustring list \<Rightarrow> ustring list"

definition vector_dim :: nat where
  "vector_dim = 768"

definition abbreviation_map :: "(ustring \<times> ustring list) list" where
  "abbreviation_map =
    [([37444, 31563, 12467, 12531, 12463, 12522, 12540, 12488],
        [[82, 67], [37444, 12467, 12531]]),
     ([12503, 12524, 12473, 12488, 12524, 12473, 12488, 12467, 12531, 12463, 12522, 12540, 12488],
        [[80, 67]]),
     ([37444, 39592, 37444, 31563, 12467, 12531, 12463, 12522, 12540, 12488],
        [[83, 82, 67]]),
     ([31354, 35519, 35373, 20633],
        [[31354, 35519], [12456, 12450, 12467, 12531], [65, 67]]),
     ([32102, 25490, 27700, 35373, 20633],
        [[32102, 25490, 27700]])]"

text \<open>The particle that is stripped (hiragana "no", U+306E).\<close>

definition particle_no :: nat where
  "particle_no = 12398"

definition generate_aliases :: "ustring \<Rightarrow> ustring list" where
  "generate_aliases t =
     (case map_of abbreviation_map t of None \<Rightarrow> [] | Some as \<Rightarrow> as) @
     (if particle_no \<in> set t then [filter (\<lambda>c. c \<noteq> particle_no) t] else [])"

definition categories :: "(ustring \<times> ustring list) list" where
  "categories =
    [([27083, 36896],
        [[37444, 31563], [12467, 12531, 12463, 12522, 12540, 12488], [37444, 39592],
         [22522, 30990], [26609], [26753], [32784, 38663]]),
     ([35373, 20633],
        [[31354, 35519], [32102, 25490, 27700], [38651, 27671], [37197, 31649],
         [37197, 32218], [28040, 38450]]),
     ([20181, 19978, 12370],
        [[22615, 35013], [12479, 12452, 12523], [12463, 12525, 12473], [24202],
         [22825, 20117], [22721]]),
     ([26448, 26009],
        [[12475, 12513, 12531, 12488], [37628, 26448], [26408, 26448], [30707, 26448],
         [12460, 12521, 12473]]),
     ([26045, 24037],
        [[24037, 20107], [26045, 24037], [24037, 31243], [29694, 22580], [20316, 26989]]),
     ([31649, 29702],
        [[21697, 36074], [23433, 20840], [24037, 31243], [26908, 26619], [35430, 39443]])]"

text \<open>The default category ("general", U+4E00 U+822C).\<close>

definition general :: ustring where
  "general = [19968, 33324]"

definition categorize_term :: "ustring \<Rightarrow> ustring" where
  "categorize_term t =
     (case find (\<lambda>(category, keywords). list_ex (\<lambda>keyword. py_in keyword t) keywords) categories of
        Some (category, keywords) \<Rightarrow> category
      | None \<Rightarrow> general)"

text \<open>\<open>' '.join(aliases)\<close>.\<close>

fun join_space :: "ustring list \<Rightarrow> ustring" where
  "join_space [] = []"
| "join_space [a] = a"
| "join_space (a # b # as) = a @ [32] @ join_space (b # as)"

text \<open>\<open>save\<close>: the vector index is written only when there is one.\<close>

definition save :: "term_database \<Rightarrow> disk \<Rightarrow> disk" where
  "save db d =
     (let d1 = (case faiss_index db of None \<Rightarrow> d | Some ix \<Rightarrow> d\<lparr>faiss_file := Stored ix\<rparr>)
      in d1\<lparr>terms_file := Stored (terms_data db),
            metadata_file := Stored (length (terms_data db), vector_dim)\<rparr>)"

text \<open>
  The loop of \<open>build_from_terms\<close> over \<open>enumerate(terms)\<close>; the state is
  \<open>(self.terms_data, vectors, documents added to the writer)\<close>. The dictionaries passed in
  are those of the extractor, which always carry a confidence.
\<close>

fun build_loop ::
  "db_env \<Rightarrow> nat \<Rightarrow> term_info list \<Rightarrow> term_data list \<times> real list list \<times> whoosh_doc list
     \<Rightarrow> term_data list \<times> real list list \<times> whoosh_doc list" where
  "build_loop env idx [] s = s"
| "build_loop env idx (term_info # terms) (tdata, vectors, docs) =
     (let term_data =
            \<lparr>rec_id = idx,
             rec_term = term term_info,
             rec_aliases = generate_aliases (term term_info),
             rec_category = categorize_term (term term_info),
             rec_confidence = confidence term_info,
             rec_frequency = (case frequency term_info of None \<Rightarrow> 1 | Some f \<Rightarrow> f),
             rec_context = []\<rparr>
      in build_loop env (Suc idx) terms
           (tdata @ [term_data],
            vectors @ [encode env (rec_term term_data)],
            docs @ [\<lparr>doc_id = idx,
                     doc_term = rec_term term_data,
                     doc_aliases = join_space (rec_aliases term_data),
                     doc_category = rec_category term_data,
                     doc_context = rec_context term_data\<rparr>]))"

text \<open>
  \<open>build_from_terms\<close> returns the exception raised (if any), the engine and the disk.
  A fresh vector index is assigned first; the loop appends to \<open>self.terms_data\<close> as it
  is; adding an empty array to the vector index raises; the writer's documents join the
  full-text index at the commit.
\<close>

definition build_from_terms ::
  "db_env \<Rightarrow> term_info list \<Rightarrow> term_database \<Rightarrow> disk \<Rightarrow> py_error option \<times> term_database \<times> disk" where
  "build_from_terms env terms db d =
     (let db1 = db\<lparr>faiss_index := Some []\<rparr>
      in case build_loop env 0 terms (terms_data db1, [], []) of (tdata, vectors, docs) \<Rightarrow>
           (let db2 = db1\<lparr>terms_data := tdata\<rparr>
            in if vectors = [] then (Some ValueError, db2, d)
               else (let db3 = db2\<lparr>faiss_index := Some ([] @ vectors),
                                    whoosh_index := whoosh_index db2 @ docs\<rparr>
                     in (None, db3, save db3 d))))"

text \<open>The loop of \<open>search_vector\<close> over the labels and distances.\<close>

fun vector_results :: "term_data list \<Rightarrow> (int \<times> real) list \<Rightarrow> py_error + scored list" where
  "vector_results tdata [] = Inr []"
| "vector_results tdata ((idx, distance) # hits) =
     (if idx < int (length tdata)
      then (case py_index tdata idx of
              Inl e \<Rightarrow> Inl e
            | Inr result \<Rightarrow>
                (case vector_results tdata hits of
                   Inl e \<Rightarrow> Inl e
                 | Inr results \<Rightarrow> Inr ((result, 1 / (1 + distance)) # results)))
      else vector_results tdata hits)"

definition search_vector :: "db_env \<Rightarrow> term_database \<Rightarrow> ustring \<Rightarrow> int \<Rightarrow> py_error + scored list" where
  "search_vector env db query k =
     (case faiss_index db of
        None \<Rightarrow> Inr []
      | Some ix \<Rightarrow> vector_results (terms_data db) (faiss_search env ix (encode env query) k))"

text \<open>The loop of \<open>search_text\<close> over the hits.\<close>

fun text_results :: "term_data list \<Rightarrow> (nat \<times> real) list \<Rightarrow> scored list" where
  "text_results tdata [] = []"
| "text_results tdata ((idx, hit_score) # hits) =
     (if idx < length tdata
      then (tdata ! idx, hit_score) # text_results tdata hits
      else text_results tdata hits)"

definition search_text :: "db_env \<Rightarrow> term_database \<Rightarrow> ustring \<Rightarrow> int \<Rightarrow> scored list" where
  "search_text env db query limit =
     text_results (terms_data db) (whoosh_search env (whoosh_index db) query limit)"

text \<open>
  \<open>hybrid_search\<close>. \<open>all_terms\<close> is a set: it is kept as the list of its elements in the
  order of their first insertion, and iterated in the order the environment gives.
\<close>

definition set_add :: "'a \<Rightarrow> 'a list \<Rightarrow> 'a list" where
  "set_add x xs = (if x \<in> set xs then xs else xs @ [x])"

fun process_vector ::
  "real \<Rightarrow> scored list \<Rightarrow> ustring list \<times> (ustring \<rightharpoonup> real) \<Rightarrow> ustring list \<times> (ustring \<rightharpoonup> real)" where
  "process_vector alpha [] s = s"
| "process_vector alpha ((result, sc) # results) (all_terms, combined_scores) =
     process_vector alpha results
       (set_add (rec_term result) all_terms,
        combined_scores(rec_term result \<mapsto> alpha * sc))"

fun process_text ::
  "real \<Rightarrow> scored list \<Rightarrow> ustring list \<times> (ustring \<rightharpoonup> real) \<Rightarrow> ustring list \<times> (ustring \<rightharpoonup> real)" where
  "process_text alpha [] s = s"
| "process_text alpha ((result, sc) # results) (all_terms, combined_scores) =
     process_text alpha results
       (set_add (rec_term result) all_terms,
        (case combined_scores (rec_term result) of
           Some c \<Rightarrow> combined_scores(rec_term result \<mapsto> c + (1 - alpha) * sc)
         | None \<Rightarrow> combined_scores(rec_term result \<mapsto> (1 - alpha) * sc)))"

text \<open>The loop that creates the final results, one term of the set after the other.\<close>

fun final_results ::
  "term_data list \<Rightarrow> (ustring \<rightharpoonup> real) \<Rightarrow> ustring list \<Rightarrow> py_error + scored list" where
  "final_results tdata combined_scores [] = Inr []"
| "final_results tdata combined_scores (t # ts) =
     (case find (\<lambda>d. rec_term d = t) tdata of
        None \<Rightarrow> final_results tdata combined_scores ts
      | Some term_data \<Rightarrow>
          (case combined_scores t of
             None \<Rightarrow> Inl KeyError
           | Some c \<Rightarrow>
               (case final_results tdata combined_scores ts of
                  Inl e \<Rightarrow> Inl e
                | Inr results \<Rightarrow> Inr ((term_data, c) # results))))"

text \<open>Everything of \<open>hybrid_search\<close> between the two searches and the final slice.\<close>

definition merge_results ::
  "db_env \<Rightarrow> term_data list \<Rightarrow> real \<Rightarrow> scored list \<Rightarrow> scored list \<Rightarrow> py_error + scored list" where
  "merge_results env tdata alpha vres tres =
     (case process_text alpha tres (process_vector alpha vres ([], Map.empty)) of
        (all_terms, combined_scores) \<Rightarrow>
          (case final_results tdata combined_scores (set_order env all_terms) of
             Inl e \<Rightarrow> Inl e
           | Inr results \<Rightarrow> Inr (sort_reverse snd results)))"

definition hybrid_search ::
  "db_env \<Rightarrow> term_database \<Rightarrow> ustring \<Rightarrow> int \<Rightarrow> real \<Rightarrow> py_error + scored list" where
  "hybrid_search env db query k alpha =
     (case search_vector env db query (k * 2) of
        Inl e \<Rightarrow> Inl e
      | Inr vres \<Rightarrow>
          (case merge_results env (terms_data db) alpha vres (search_text env db query (k * 2)) of
             Inl e \<Rightarrow> Inl e
           | Inr results \<Rightarrow> Inr (py_slice_to results k)))"

text \<open>
  \<open>load\<close>. The body of the \<open>try\<close> block gives the exception raised (if any) and the
  engine as it is at that point: each attribute is assigned as soon as its file is read.
\<close>

definition load_try :: "disk \<Rightarrow> term_database \<Rightarrow> py_error option \<times> term_database" where
  "load_try d db =
     (case faiss_file d of
        Unreadable \<Rightarrow> (Some ReadError, db)
      | f \<Rightarrow>
          (let db1 = (case f of Stored ix \<Rightarrow> db\<lparr>faiss_index := Some ix\<rparr> | _ \<Rightarrow> db)
           in case terms_file d of
                Unreadable \<Rightarrow> (Some ReadError, db1)
              | Missing \<Rightarrow> (None, db1)
              | Stored tdata \<Rightarrow> (None, db1\<lparr>terms_data := tdata\<rparr>)))"

text \<open>
  The \<open>except Exception\<close> clause logs the error and falls through: \<open>load\<close> returns
  normally in every case, with the engine as the \<open>try\<close> block left it.
\<close>

definition load :: "disk \<Rightarrow> term_database \<Rightarrow> py_error option \<times> term_database" where
  "load d db = (case load_try d db of (raised, db') \<Rightarrow> (None, db'))"

text \<open>\<open>TermDatabase.__init__\<close> with an empty index directory.\<close>

definition new_database :: term_database where
  "new_database = \<lparr>faiss_index = None, terms_data = [], whoosh_index = []\<rparr>"

definition empty_disk :: disk where
  "empty_disk = \<lparr>faiss_file = Missing, terms_file = Missing, metadata_file = Missing\<rparr>"

section \<open>Sample environments\<close>

text \<open>
  An extractor environment given by tables: the matches of each pattern and the tokens,
  whatever the text; \<open>\d\<close> restricted to the ASCII digits.
\<close>

definition table_env :: "(term_pattern \<Rightarrow> ustring list) \<Rightarrow> token list \<Rightarrow> extractor_env" where
  "table_env matches toks =
     \<lparr>re_findall = (\<lambda>p text. matches p),
      re_digit = (\<lambda>c. 48 \<le> c \<and> c \<le> 57),
      tokenize = (\<lambda>text. toks)\<rparr>"

text \<open>
  The exact L2 index of the vector library: the \<open>k\<close> nearest vectors by squared
  distance, nearest first; when the index holds fewer than \<open>k\<close> vectors the missing
  neighbours have the label \<open>-1\<close> and the largest single-precision distance.
\<close>

definition flt_max :: real where
  "flt_max = 340282346638528859811704183484516925440"

definition l2_distance :: "real list \<Rightarrow> real list \<Rightarrow> real" where
  "l2_distance v q = sum_list (map2 (\<lambda>a b. (a - b) * (a - b)) v q)"

definition flat_l2_search :: "real list list \<Rightarrow> real list \<Rightarrow> int \<Rightarrow> (int \<times> real) list" where
  "flat_l2_search ix q k =
     (let ranked = sort_key snd (zip (map int [0..<length ix]) (map (\<lambda>v. l2_distance v q) ix))
      in take (nat k) ranked @ replicate (nat k - length ix) (- 1, flt_max))"

text \<open>
  A sample full-text search: the documents whose term contains the query, each with
  score 1, in index order.
\<close>

definition substring_search :: "whoosh_doc list \<Rightarrow> ustring \<Rightarrow> int \<Rightarrow> (nat \<times> real) list" where
  "substring_search docs query limit =
     take (nat limit) (map (\<lambda>d. (doc_id d, 1)) (filter (\<lambda>d. py_in query (doc_term d)) docs))"

text \<open>A sample encoder: the code points of the string as coordinates.\<close>

definition sample_env :: db_env where
  "sample_env =
     \<lparr>encode = map real,
      faiss_search = flat_l2_search,
      whoosh_search = substring_search,
      set_order = (\<lambda>xs. xs)\<rparr>"

section \<open>Auxiliary notions for the proofs\<close>

text \<open>
  The invariant of the two extraction loops: the terms emitted so far are pairwise
  different and \<open>seen_terms\<close> is exactly the set of their surface forms.
\<close>

definition emitted_inv :: "term_info list \<times> ustring set \<Rightarrow> bool" where
  "emitted_inv s = (distinct (map term (fst s)) \<and> snd s = set (map term (fst s)))"

text \<open>
  For the batch: everything the files emit, in order; how often a surface form is
  emitted; and the invariant of the counting loops, which says that the dictionary holds
  these counts and that \<open>all_terms\<close> holds the first emission of every surface form
  emitted so far, once.
\<close>

definition emissions :: "extractor_env \<Rightarrow> ustring list \<Rightarrow> term_info list" where
  "emissions env texts =
     concat (map (\<lambda>t. case extract_terms_from_text env t of Inr ts \<Rightarrow> ts | Inl e \<Rightarrow> []) texts)"

definition occurrences :: "ustring \<Rightarrow> term_info list \<Rightarrow> int" where
  "occurrences t es = int (length (filter (\<lambda>e. term e = t) es))"

definition counted :: "term_info list \<Rightarrow> term_info list \<times> (ustring \<rightharpoonup> int) \<Rightarrow> bool" where
  "counted es s =
     ((\<forall>t. snd s t = (if t \<in> term ` set es then Some (occurrences t es) else None)) \<and>
      (\<forall>a \<in> set (fst s). find (\<lambda>e. term e = term a) es = Some a) \<and>
      distinct (map term (fst s)) \<and>
      term ` set (fst s) = term ` set es)"

text \<open>
  A sample environment whose regular-expression engine knows the pattern of the
  abbreviations only (the maximal runs of two or more capital letters) and whose
  tokenizer returns no token.
\<close>

fun char_runs :: "(nat \<Rightarrow> bool) \<Rightarrow> ustring \<Rightarrow> ustring \<Rightarrow> ustring list" where
  "char_runs P cur [] = (if cur = [] then [] else [cur])"
| "char_runs P cur (c # cs) =
     (if P c then char_runs P (cur @ [c]) cs
      else (if cur = [] then [] else [cur]) @ char_runs P [] cs)"

definition capitals_env :: extractor_env where
  "capitals_env =
     \<lparr>re_findall = (\<lambda>p text. if p = Abbreviation
                       then filter (\<lambda>m. 2 \<le> length m) (char_runs (\<lambda>c. 65 \<le> c \<and> c \<le> 90) [] text)
                       else []),
      re_digit = (\<lambda>c. 48 \<le> c \<and> c \<le> 57),
      tokenize = (\<lambda>text. [])\<rparr>"

text \<open>Sample tokens: a particle, and the two nouns "foundation" and "construction work".\<close>

definition tok_no :: token where
  "tok_no = \<lparr>surface = [12398], part_of_speech = [21161, 35422]\<rparr>"

definition tok_kiso :: token where
  "tok_kiso = \<lparr>surface = [22522, 30990], part_of_speech = noun\<rparr>"

definition tok_kouji :: token where
  "tok_kouji = \<lparr>surface = [24037, 20107], part_of_speech = noun\<rparr>"

text \<open>
  Sample data for the engine: the candidates "RC" and "PC" as the pattern stage emits
  them, the record and the full-text document built from a term that has no alias and
  the default category, and four states of the engine.
\<close>

definition rc_info :: term_info where
  "rc_info = \<lparr>term = [82, 67], type = Pattern, confidence = 0.7, frequency = None\<rparr>"

definition pc_info :: term_info where
  "pc_info = \<lparr>term = [80, 67], type = Pattern, confidence = 0.7, frequency = None\<rparr>"

definition record_of :: "nat \<Rightarrow> ustring \<Rightarrow> term_data" where
  "record_of i t =
     \<lparr>rec_id = i, rec_term = t, rec_aliases = [], rec_category = general,
      rec_confidence = 0.7, rec_frequency = 1, rec_context = []\<rparr>"

definition doc_of :: "nat \<Rightarrow> ustring \<Rightarrow> whoosh_doc" where
  "doc_of i t =
     \<lparr>doc_id = i, doc_term = t, doc_aliases = [], doc_category = general, doc_context = []\<rparr>"

definition db_rc :: term_database where
  "db_rc =
     \<lparr>faiss_index = Some [[82, 67]],
      terms_data = [record_of 0 [82, 67]],
      whoosh_index = [doc_of 0 [82, 67]]\<rparr>"

definition db_rc_pc :: term_database where
  "db_rc_pc =
     \<lparr>faiss_index = Some [[82, 67], [80, 67]],
      terms_data = [record_of 0 [82, 67], record_of 1 [80, 67]],
      whoosh_index = [doc_of 0 [82, 67], doc_of 1 [80, 67]]\<rparr>"

definition db_rebuilt :: term_database where
  "db_rebuilt =
     \<lparr>faiss_index = Some [[80, 67]],
      terms_data = [record_of 0 [82, 67], record_of 0 [80, 67]],
      whoosh_index = [doc_of 0 [82, 67], doc_of 0 [80, 67]]\<rparr>"

definition db_empty_built :: term_database where
  "db_empty_built = \<lparr>faiss_index = Some [], terms_data = [], whoosh_index = []\<rparr>"

text \<open>
  For the merge of \<open>hybrid_search\<close>: the terms of a result list; the score of a term in
  a result list (that of its first row, 0 when no row carries the term); the score of its
  last row; the sum of the scores of its rows; and the requirement on the environment
  that iterating a set visits each of its elements once.
\<close>

definition terms_of :: "scored list \<Rightarrow> ustring list" where
  "terms_of rows = map (\<lambda>r. rec_term (fst r)) rows"

definition score_of :: "scored list \<Rightarrow> ustring \<Rightarrow> real" where
  "score_of rows t =
     (case find (\<lambda>r. rec_term (fst r) = t) rows of Some r \<Rightarrow> snd r | None \<Rightarrow> 0)"

definition last_score :: "scored list \<Rightarrow> ustring \<Rightarrow> real" where
  "last_score rows t = score_of (rev rows) t"

definition score_sum :: "scored list \<Rightarrow> ustring \<Rightarrow> real" where
  "score_sum rows t = sum_list (map snd (filter (\<lambda>r. rec_term (fst r) = t) rows))"

definition iterates_elements :: "db_env \<Rightarrow> bool" where
  "iterates_elements env =
     (\<forall>xs. distinct xs \<longrightarrow> distinct (set_order env xs) \<and> set (set_order env xs) = set xs)"

text \<open>The engine built from the term "RC" given twice.\<close>

definition db_rc_rc :: term_database where
  "db_rc_rc =
     \<lparr>faiss_index = Some [[82, 67], [82, 67]],
      terms_data = [record_of 0 [82, 67], record_of 1 [82, 67]],
      whoosh_index = [doc_of 0 [82, 67], doc_of 1 [82, 67]]\<rparr>"

section \<open>The construction-term heuristic\<close>

lemma no_keyword_in_empty: "\<not> list_ex (\<lambda>keyword. py_in keyword []) construction_keywords"
  by (simp add: construction_keywords_def)

text \<open>
  C6 (as the code has it): for every non-empty phrase the heuristic returns a boolean
  and raises nothing; the division by the length of the phrase is not guarded, and only a
  non-empty phrase keeps it away from zero.
\<close>

theorem is_construction_term_nonempty_returns:
  "t \<noteq> [] \<Longrightarrow> \<exists>b. is_construction_term env t = Inr b"
  by (auto simp add: is_construction_term_def)

theorem is_construction_term_nonempty_returns_witness:
  "[82::nat, 67] \<noteq> [] \<and>
   (\<exists>b. is_construction_term (table_env (\<lambda>p. []) []) [82, 67] = Inr b)"
  using is_construction_term_nonempty_returns [of "[82, 67]" "table_env (\<lambda>p. []) []"] by simp

text \<open>
  C6 (as stated) fails on the empty phrase: no keyword is a substring of it, so the
  ratio is computed and the division by \<open>len(term) = 0\<close> raises.
\<close>

theorem is_construction_term_empty_raises:
  "is_construction_term (table_env (\<lambda>p. []) []) [] = Inl ZeroDivisionError"
  unfolding is_construction_term_def using no_keyword_in_empty by simp

section \<open>Deduplication of the extracted terms\<close>

lemma add_matches_inv: "emitted_inv s \<Longrightarrow> emitted_inv (add_matches ms s)"
  by (induction ms s rule: add_matches.induct) (auto simp: emitted_inv_def)

lemma pattern_extraction_inv:
  "emitted_inv s \<Longrightarrow> emitted_inv (pattern_extraction env ps doc_text s)"
  by (induction ps arbitrary: s) (auto simp: add_matches_inv)

lemma pattern_extraction_start_inv:
  "emitted_inv (pattern_extraction env ps doc_text ([], {}))"
  by (rule pattern_extraction_inv) (simp add: emitted_inv_def)

lemma emitted_inv_snoc:
  "emitted_inv (terms, seen) \<Longrightarrow> term c \<notin> seen \<Longrightarrow>
   emitted_inv (terms @ [c], insert (term c) seen)"
  by (auto simp: emitted_inv_def)

lemma noun_phrases_inv:
  "noun_phrases env toks (terms, seen, cur) = Inr (terms', seen', cur') \<Longrightarrow>
   emitted_inv (terms, seen) \<Longrightarrow> emitted_inv (terms', seen')"
proof (induction toks arbitrary: terms seen cur)
  case Nil
  then show ?case by simp
next
  case (Cons tok toks)
  let ?c = "\<lparr>term = concat cur, type = Morphological, confidence = 0.8, frequency = None\<rparr>"
  have snoc: "concat cur \<notin> seen \<Longrightarrow> emitted_inv (terms @ [?c], insert (concat cur) seen)"
    using emitted_inv_snoc [OF Cons.prems(2), of ?c] by simp
  from Cons.prems(1) show ?case
    using Cons.IH Cons.prems(2) snoc
    by (simp add: Let_def split: if_splits sum.splits bool.splits)
qed

lemma noun_phrases_prefix:
  "noun_phrases env toks (terms, seen, cur) = Inr (terms', seen', cur') \<Longrightarrow>
   \<exists>ys. terms' = terms @ ys"
proof (induction toks arbitrary: terms seen cur)
  case Nil
  then show ?case by simp
next
  case (Cons tok toks)
  then show ?case
    by (fastforce simp: Let_def split: if_splits sum.splits bool.splits)
qed

lemma last_phrase_distinct:
  "last_phrase env (terms, seen, cur) = Inr out \<Longrightarrow> emitted_inv (terms, seen) \<Longrightarrow>
   distinct (map term out)"
  by (auto simp: last_phrase_def emitted_inv_def Let_def split: if_splits sum.splits bool.splits)

lemma last_phrase_prefix:
  "last_phrase env (terms, seen, cur) = Inr out \<Longrightarrow> \<exists>ys. out = terms @ ys"
  by (auto simp: last_phrase_def Let_def split: if_splits sum.splits bool.splits)

text \<open>
  C8: whatever the regular-expression engine and the tokenizer return, the terms that
  \<open>extract_terms_from_text\<close> returns have pairwise different surface forms, across the
  pattern stage and the morphological stage; and the first writer wins: the candidates
  of the pattern stage stay, in order, at the head of the result.
\<close>

theorem extract_terms_distinct:
  assumes "extract_terms_from_text env doc_text = Inr out"
  shows "distinct (map term out) \<and>
         (\<exists>later. out = fst (pattern_extraction env term_patterns doc_text ([], {})) @ later)"
proof -
  obtain P S where ps: "pattern_extraction env term_patterns doc_text ([], {}) = (P, S)"
    by (cases "pattern_extraction env term_patterns doc_text ([], {})")
  have invP: "emitted_inv (P, S)"
    using pattern_extraction_start_inv [of env term_patterns doc_text] ps by simp
  from assms ps obtain T1 S1 C1 where
    np: "noun_phrases env (tokenize env doc_text) (P, S, []) = Inr (T1, S1, C1)" and
    lp: "last_phrase env (T1, S1, C1) = Inr out"
    by (auto simp: extract_terms_from_text_def split: sum.splits)
  have inv1: "emitted_inv (T1, S1)" using noun_phrases_inv [OF np invP] .
  have d: "distinct (map term out)" using last_phrase_distinct [OF lp inv1] .
  obtain ys where "T1 = P @ ys" using noun_phrases_prefix [OF np] by blast
  moreover obtain zs where "out = T1 @ zs" using last_phrase_prefix [OF lp] by blast
  ultimately have "out = P @ (ys @ zs)" by simp
  with d ps show ?thesis by auto
qed

lemma kiso_kouji_is_term:
  "is_construction_term env [22522, 30990, 24037, 20107] = Inr True"
  by (simp add: is_construction_term_def construction_keywords_def)

lemma kanji_suffix_only:
  "pattern_extraction
     (table_env (\<lambda>p. if p = KanjiSuffix then [[22522, 30990, 24037, 20107]] else []) toks)
     term_patterns [] ([], {}) =
   ([\<lparr>term = [22522, 30990, 24037, 20107], type = Pattern, confidence = 0.7,
      frequency = None\<rparr>],
    {[22522, 30990, 24037, 20107]})"
  by (simp add: table_env_def term_patterns_def)

lemma pattern_then_same_phrase:
  "extract_terms_from_text
     (table_env (\<lambda>p. if p = KanjiSuffix then [[22522, 30990, 24037, 20107]] else [])
        [tok_kiso, tok_kouji]) [] =
   Inr [\<lparr>term = [22522, 30990, 24037, 20107], type = Pattern, confidence = 0.7,
          frequency = None\<rparr>]"
  by (simp add: extract_terms_from_text_def kanji_suffix_only)
     (simp add: table_env_def tok_kiso_def tok_kouji_def last_phrase_def)

text \<open>
  The phrase matched by a pattern and built again from two noun tokens is emitted once,
  as the pattern candidate.
\<close>

theorem extract_terms_distinct_witness:
  "extract_terms_from_text
     (table_env (\<lambda>p. if p = KanjiSuffix then [[22522, 30990, 24037, 20107]] else [])
        [tok_kiso, tok_kouji]) [] =
     Inr [\<lparr>term = [22522, 30990, 24037, 20107], type = Pattern, confidence = 0.7,
            frequency = None\<rparr>] \<and>
   distinct (map term [\<lparr>term = [22522, 30990, 24037, 20107], type = Pattern,
                        confidence = 0.7, frequency = None\<rparr>])"
  using extract_terms_distinct [OF pattern_then_same_phrase] pattern_then_same_phrase
  by simp

section \<open>The phrase at the end of the token stream\<close>

lemma noun_phrases_append:
  "noun_phrases env (xs @ ys) s =
     (case noun_phrases env xs s of Inl e \<Rightarrow> Inl e | Inr s' \<Rightarrow> noun_phrases env ys s')"
proof (induction xs arbitrary: s)
  case Nil
  then show ?case by simp
next
  case (Cons tok xs)
  obtain terms seen cur where s: "s = (terms, seen, cur)" by (cases s)
  show ?case unfolding s
    by (simp add: Cons.IH Let_def split: sum.splits bool.splits)
qed

lemma noun_phrases_nouns:
  "\<forall>t \<in> set run. part_of_speech t = noun \<Longrightarrow>
   noun_phrases env run (terms, seen, cur) = Inr (terms, seen, cur @ map surface run)"
  by (induction run arbitrary: cur) auto

lemma noun_phrases_reset:
  "noun_phrases env (xs @ [tok]) s = Inr (terms', seen', cur') \<Longrightarrow>
   part_of_speech tok \<noteq> noun \<Longrightarrow> cur' = []"
  by (cases "noun_phrases env xs s")
     (auto simp: noun_phrases_append Let_def split: if_splits sum.splits bool.splits)

lemma noun_phrases_buffer_empty:
  assumes "noun_phrases env pre (terms, seen, []) = Inr (terms', seen', cur')"
    and "pre = [] \<or> part_of_speech (last pre) \<noteq> noun"
  shows "cur' = []"
proof (cases "pre = []")
  case True
  with assms(1) show ?thesis by simp
next
  case False
  then have "pre = butlast pre @ [last pre]" by simp
  then show ?thesis
    using noun_phrases_reset [of env "butlast pre" "last pre" "(terms, seen, [])" terms' seen' cur']
      assms False
    by simp
qed

text \<open>
  C7: let the token stream end with a maximal run of two or more noun tokens, and let
  \<open>terms1\<close> and \<open>seen1\<close> be the terms emitted and seen when the loop has consumed the
  tokens before that run (\<open>seen1\<close> is the set of the surface forms of \<open>terms1\<close>). Then the
  buffer is flushed at the end of the stream: unless the concatenated phrase has been
  seen, the heuristic is called on it, and when it accepts, the result is \<open>terms1\<close>
  followed by the phrase as a morphological candidate of confidence 0.8.
\<close>

theorem terminal_phrase_flushed:
  assumes toks: "tokenize env doc_text = pre @ run"
    and nouns: "\<forall>t \<in> set run. part_of_speech t = noun"
    and len: "2 \<le> length run"
    and maximal: "pre = [] \<or> part_of_speech (last pre) \<noteq> noun"
    and before: "noun_phrases env pre
                   (fst (pattern_extraction env term_patterns doc_text ([], {})),
                    snd (pattern_extraction env term_patterns doc_text ([], {})), []) =
                 Inr (terms1, seen1, cur1)"
  shows "seen1 = term ` set terms1 \<and>
         extract_terms_from_text env doc_text =
           (if concat (map surface run) \<in> seen1 then Inr terms1
            else case is_construction_term env (concat (map surface run)) of
                   Inl e \<Rightarrow> Inl e
                 | Inr b \<Rightarrow>
                     Inr (if b
                          then terms1 @ [\<lparr>term = concat (map surface run), type = Morphological,
                                          confidence = 0.8, frequency = None\<rparr>]
                          else terms1))"
proof -
  obtain P S where ps: "pattern_extraction env term_patterns doc_text ([], {}) = (P, S)"
    by (cases "pattern_extraction env term_patterns doc_text ([], {})")
  have invP: "emitted_inv (P, S)"
    using pattern_extraction_start_inv [of env term_patterns doc_text] ps by simp
  from before ps have np: "noun_phrases env pre (P, S, []) = Inr (terms1, seen1, cur1)"
    by simp
  have cur1: "cur1 = []" using noun_phrases_buffer_empty [OF np maximal] .
  have seen1: "seen1 = term ` set terms1"
    using noun_phrases_inv [OF np invP] by (simp add: emitted_inv_def)
  have all: "noun_phrases env (tokenize env doc_text) (P, S, []) =
             Inr (terms1, seen1, map surface run)"
    using np cur1 noun_phrases_nouns [OF nouns, of env terms1 seen1 "[]"]
    by (simp add: toks noun_phrases_append)
  have "extract_terms_from_text env doc_text = last_phrase env (terms1, seen1, map surface run)"
    by (simp add: extract_terms_from_text_def ps all)
  with len seen1 show ?thesis
    by (simp add: last_phrase_def Let_def split: sum.splits bool.splits)
qed

lemma no_pattern_matches:
  "pattern_extraction (table_env (\<lambda>p. []) toks) term_patterns [] ([], {}) = ([], {})"
  by (simp add: table_env_def term_patterns_def)

text \<open>A particle followed by two nouns at the end of the stream: the phrase is emitted.\<close>

theorem terminal_phrase_flushed_witness:
  "tokenize (table_env (\<lambda>p. []) [tok_no, tok_kiso, tok_kouji]) [] =
     [tok_no] @ [tok_kiso, tok_kouji] \<and>
   extract_terms_from_text (table_env (\<lambda>p. []) [tok_no, tok_kiso, tok_kouji]) [] =
     Inr [\<lparr>term = [22522, 30990, 24037, 20107], type = Morphological, confidence = 0.8,
            frequency = None\<rparr>]"
proof -
  let ?env = "table_env (\<lambda>p. []) [tok_no, tok_kiso, tok_kouji]"
  have h1: "tokenize ?env [] = [tok_no] @ [tok_kiso, tok_kouji]"
    by (simp add: table_env_def)
  have h2: "\<forall>t \<in> set [tok_kiso, tok_kouji]. part_of_speech t = noun"
    by (simp add: tok_kiso_def tok_kouji_def)
  have h3: "2 \<le> length [tok_kiso, tok_kouji]" by simp
  have h4: "[tok_no] = [] \<or> part_of_speech (last [tok_no]) \<noteq> noun"
    by (simp add: tok_no_def noun_def)
  have h5: "noun_phrases ?env [tok_no]
              (fst (pattern_extraction ?env term_patterns [] ([], {})),
               snd (pattern_extraction ?env term_patterns [] ([], {})), []) =
            Inr ([], {}, [])"
    by (simp add: no_pattern_matches tok_no_def noun_def)
  show ?thesis
    using terminal_phrase_flushed [OF h1 h2 h3 h4 h5] h1
    by (simp add: kiso_kouji_is_term tok_kiso_def tok_kouji_def)
qed

section \<open>The stable descending sort\<close>

lemma set_sort_reverse: "set (sort_reverse f xs) = set xs"
  by (simp add: sort_reverse_def)

lemma sorted_sort_reverse: "sorted (rev (map f (sort_reverse f xs)))"
  by (simp add: sort_reverse_def rev_map [symmetric])

lemma length_sort_reverse: "length (sort_reverse f xs) = length xs"
  by (simp add: sort_reverse_def)

lemma distinct_map_sort_reverse:
  "distinct (map g xs) \<Longrightarrow> distinct (map g (sort_reverse f xs))"
proof -
  assume d: "distinct (map g xs)"
  have "card (g ` set (sort_reverse f xs)) = card (set (map g xs))"
    by (simp add: set_sort_reverse)
  also have "\<dots> = length (map g xs)" using d by (rule distinct_card)
  finally have "card (set (map g (sort_reverse f xs))) = length (map g (sort_reverse f xs))"
    by (simp add: length_sort_reverse)
  then show ?thesis by (rule card_distinct)
qed

section \<open>Frequencies and the confidence boost of the batch\<close>

lemma occurrences_snoc:
  "occurrences t (es @ [e]) = occurrences t es + (if term e = t then 1 else 0)"
  by (simp add: occurrences_def)

lemma occurrences_zero: "t \<notin> term ` set es \<Longrightarrow> occurrences t es = 0"
  by (auto simp: occurrences_def filter_empty_conv)

lemma find_snoc_seen:
  "find P es = Some a \<Longrightarrow> find P (es @ [e]) = Some a"
  by (induction es) auto

lemma find_snoc_new:
  "\<forall>x \<in> set es. \<not> P x \<Longrightarrow> P e \<Longrightarrow> find P (es @ [e]) = Some e"
  by (induction es) auto

lemma counted_step:
  assumes "counted es (all_terms, tf)"
  shows "counted (es @ [ti])
           (case tf (term ti) of
              Some n \<Rightarrow> (all_terms, tf(term ti \<mapsto> n + 1))
            | None \<Rightarrow> (all_terms @ [ti], tf(term ti \<mapsto> 1)))"
proof (cases "tf (term ti)")
  case None
  with assms have new: "term ti \<notin> term ` set es"
    by (auto simp: counted_def split: if_splits)
  then have "\<forall>x \<in> set es. \<not> term x = term ti" by (auto simp: image_iff)
  then have "find (\<lambda>e. term e = term ti) (es @ [ti]) = Some ti"
    by (rule find_snoc_new) simp
  with assms None new show ?thesis
    by (auto simp: counted_def occurrences_snoc occurrences_zero find_snoc_seen)
next
  case (Some n)
  with assms have "term ti \<in> term ` set es" "n = occurrences (term ti) es"
    by (auto simp: counted_def split: if_splits)
  with assms Some show ?thesis
    by (auto simp: counted_def occurrences_snoc find_snoc_seen)
qed

lemma count_frequency_counted:
  "counted es s \<Longrightarrow> counted (es @ ts) (count_frequency ts s)"
proof (induction ts arbitrary: es s)
  case Nil
  then show ?case by simp
next
  case (Cons ti tis)
  obtain all_terms tf where s: "s = (all_terms, tf)" by (cases s)
  have "counted ((es @ [ti]) @ tis)
          (count_frequency tis (case tf (term ti) of
              Some n \<Rightarrow> (all_terms, tf(term ti \<mapsto> n + 1))
            | None \<Rightarrow> (all_terms @ [ti], tf(term ti \<mapsto> 1))))"
    using Cons.prems s by (intro Cons.IH counted_step) simp
  then show ?case by (simp add: s split: option.splits)
qed

lemma pdf_loop_counted:
  "pdf_loop env texts s = Inr s' \<Longrightarrow> counted es s \<Longrightarrow> counted (es @ emissions env texts) s'"
proof (induction texts arbitrary: es s)
  case Nil
  then show ?case by (simp add: emissions_def)
next
  case (Cons t texts)
  from Cons.prems(1) obtain ts where
    ts: "extract_terms_from_text env t = Inr ts" and
    rest: "pdf_loop env texts (count_frequency ts s) = Inr s'"
    by (auto split: sum.splits)
  have "counted ((es @ ts) @ emissions env texts) s'"
    using rest count_frequency_counted [OF Cons.prems(2)] by (rule Cons.IH)
  then show ?case by (simp add: emissions_def ts)
qed

lemma pdf_loop_returns:
  "\<forall>t \<in> set texts. \<exists>ts. extract_terms_from_text env t = Inr ts \<Longrightarrow>
   \<exists>s'. pdf_loop env texts s = Inr s'"
proof (induction texts arbitrary: s)
  case Nil
  then show ?case by simp
next
  case (Cons t texts)
  from Cons.prems obtain ts where "extract_terms_from_text env t = Inr ts" by auto
  with Cons show ?case by simp
qed

lemma add_frequency_returns:
  "\<forall>a \<in> set as. tf (term a) = Some (f (term a)) \<Longrightarrow>
   add_frequency tf as = Inr (map (\<lambda>a. boost (f (term a)) a) as)"
  by (induction as) auto

lemma boost_fields:
  "boost n a =
     a\<lparr>frequency := Some n,
       confidence := (if n > 3 then min 1 (confidence a + 0.1) else confidence a)\<rparr>"
  by (simp add: boost_def Let_def)

lemma term_boost: "term (boost n a) = term a"
  by (simp add: boost_def Let_def)

text \<open>
  C9: when no file makes the extraction raise, \<open>extract_terms_from_pdfs\<close> returns a list
  that holds exactly one entry for every surface form emitted over the files. The entry
  is the first emission of that surface form, with its frequency set to the number of
  emissions and its confidence set to \<open>min(1.0, raw + 0.1)\<close> when that frequency exceeds 3
  and left at \<open>raw\<close> otherwise: the boost is applied once, however far the frequency
  exceeds 3. The list is sorted by descending frequency, then confidence.
\<close>

theorem batch_frequency_boost:
  assumes ok: "\<forall>t \<in> set texts. \<exists>ts. extract_terms_from_text env t = Inr ts"
  shows "\<exists>out. extract_terms_from_pdfs env texts = Inr out \<and>
           distinct (map term out) \<and>
           term ` set out = term ` set (emissions env texts) \<and>
           sorted (rev (map frequency_confidence out)) \<and>
           (\<forall>r \<in> set out. \<exists>raw.
              find (\<lambda>e. term e = term r) (emissions env texts) = Some raw \<and>
              r = raw\<lparr>frequency := Some (occurrences (term r) (emissions env texts)),
                      confidence :=
                        (if occurrences (term r) (emissions env texts) > 3
                         then min 1 (confidence raw + 0.1) else confidence raw)\<rparr>)"
proof -
  let ?es = "emissions env texts"
  let ?n = "\<lambda>t. occurrences t ?es"
  from pdf_loop_returns [OF ok] obtain all_terms tf where
    loop: "pdf_loop env texts ([], Map.empty) = Inr (all_terms, tf)"
    by (metis surj_pair)
  have "counted [] ([], Map.empty)" by (simp add: counted_def)
  then have c: "counted ?es (all_terms, tf)"
    using pdf_loop_counted [OF loop, of "[]"] by simp
  from c have d: "distinct (map term all_terms)"
    and cover: "term ` set all_terms = term ` set ?es"
    and first: "\<forall>a \<in> set all_terms. find (\<lambda>e. term e = term a) ?es = Some a"
    and tf: "\<forall>t. tf t = (if t \<in> term ` set ?es then Some (?n t) else None)"
    by (simp_all add: counted_def)
  have known: "\<forall>a \<in> set all_terms. tf (term a) = Some (?n (term a))"
    using tf cover by auto
  let ?ts = "map (\<lambda>a. boost (?n (term a)) a) all_terms"
  let ?out = "sort_reverse frequency_confidence ?ts"
  have add: "add_frequency tf all_terms = Inr ?ts"
    using add_frequency_returns [OF known] .
  have res: "extract_terms_from_pdfs env texts = Inr ?out"
    by (simp add: extract_terms_from_pdfs_def loop add)
  have terms_ts: "map term ?ts = map term all_terms"
    by (simp add: term_boost comp_def)
  have "distinct (map term ?ts)"
    using d by (simp only: terms_ts)
  then have dist: "distinct (map term ?out)"
    by (rule distinct_map_sort_reverse)
  have "term ` set ?out = term ` set ?ts"
    by (simp only: set_sort_reverse)
  also have "\<dots> = set (map term ?ts)"
    by (simp only: set_map)
  also have "\<dots> = term ` set all_terms"
    by (simp only: terms_ts set_map)
  finally have cov: "term ` set ?out = term ` set ?es"
    using cover by simp
  have rows: "\<exists>raw. find (\<lambda>e. term e = term r) ?es = Some raw \<and>
      r = raw\<lparr>frequency := Some (?n (term r)),
              confidence := (if ?n (term r) > 3 then min 1 (confidence raw + 0.1)
                             else confidence raw)\<rparr>"
    if "r \<in> set ?out" for r
  proof -
    from that obtain a where a: "a \<in> set all_terms" "r = boost (?n (term a)) a"
      by (auto simp: set_sort_reverse)
    then have t: "term r = term a" by (simp add: term_boost)
    from first a(1) have "find (\<lambda>e. term e = term r) ?es = Some a" by (simp add: t)
    moreover have "r = a\<lparr>frequency := Some (?n (term r)),
        confidence := (if ?n (term r) > 3 then min 1 (confidence a + 0.1) else confidence a)\<rparr>"
      using a(2) by (simp add: t boost_fields)
    ultimately show ?thesis by blast
  qed
  show ?thesis
    using res dist cov rows sorted_sort_reverse [of frequency_confidence ?ts]
    by (intro exI [of _ ?out]) blast
qed

lemma capitals_rc:
  "extract_terms_from_text capitals_env [82, 67] =
     Inr [\<lparr>term = [82, 67], type = Pattern, confidence = 0.7, frequency = None\<rparr>]"
  by (simp add: extract_terms_from_text_def capitals_env_def term_patterns_def last_phrase_def)

lemma capitals_rc_pc:
  "extract_terms_from_text capitals_env [82, 67, 32, 80, 67] =
     Inr [\<lparr>term = [82, 67], type = Pattern, confidence = 0.7, frequency = None\<rparr>,
          \<lparr>term = [80, 67], type = Pattern, confidence = 0.7, frequency = None\<rparr>]"
  by (simp add: extract_terms_from_text_def capitals_env_def term_patterns_def last_phrase_def)

lemma four_files:
  "extract_terms_from_pdfs capitals_env
     [[82, 67], [82, 67, 32, 80, 67], [82, 67, 32, 80, 67], [82, 67, 32, 80, 67]] =
   Inr [\<lparr>term = [82, 67], type = Pattern, confidence = 0.8, frequency = Some 4\<rparr>,
        \<lparr>term = [80, 67], type = Pattern, confidence = 0.7, frequency = Some 3\<rparr>]"
  by (simp add: extract_terms_from_pdfs_def capitals_rc capitals_rc_pc boost_def
      sort_reverse_def frequency_confidence_def)

lemma capitals_returns:
  "\<exists>ts. extract_terms_from_text capitals_env doc_text = Inr ts"
  by (simp add: extract_terms_from_text_def capitals_env_def last_phrase_def
      split: prod.splits)

text \<open>
  Four files: "RC" is emitted by all four and is boosted from 0.7 to 0.8, "PC" is
  emitted by three and keeps 0.7.
\<close>

theorem batch_frequency_boost_witness:
  "\<exists>out. extract_terms_from_pdfs capitals_env
            [[82, 67], [82, 67, 32, 80, 67], [82, 67, 32, 80, 67], [82, 67, 32, 80, 67]] =
          Inr out \<and>
     out = [\<lparr>term = [82, 67], type = Pattern, confidence = 0.8, frequency = Some 4\<rparr>,
            \<lparr>term = [80, 67], type = Pattern, confidence = 0.7, frequency = Some 3\<rparr>] \<and>
     distinct (map term out) \<and>
     term ` set out =
       term ` set (emissions capitals_env
         [[82, 67], [82, 67, 32, 80, 67], [82, 67, 32, 80, 67], [82, 67, 32, 80, 67]]) \<and>
     (\<forall>r \<in> set out.
        frequency r =
          Some (occurrences (term r) (emissions capitals_env
            [[82, 67], [82, 67, 32, 80, 67], [82, 67, 32, 80, 67], [82, 67, 32, 80, 67]])))"
proof -
  let ?texts = "[[82, 67], [82, 67, 32, 80, 67], [82, 67, 32, 80, 67], [82, 67, 32, 80, 67]]"
  have ok: "\<forall>t \<in> set ?texts. \<exists>ts. extract_terms_from_text capitals_env t = Inr ts"
    using capitals_returns by blast
  from batch_frequency_boost [OF ok] obtain out where
    out: "extract_terms_from_pdfs capitals_env ?texts = Inr out"
      "distinct (map term out)"
      "term ` set out = term ` set (emissions capitals_env ?texts)"
      "\<forall>r \<in> set out. \<exists>raw.
          find (\<lambda>e. term e = term r) (emissions capitals_env ?texts) = Some raw \<and>
          r = raw\<lparr>frequency := Some (occurrences (term r) (emissions capitals_env ?texts)),
                  confidence :=
                    (if occurrences (term r) (emissions capitals_env ?texts) > 3
                     then min 1 (confidence raw + 0.1) else confidence raw)\<rparr>"
    by blast
  have freq: "\<forall>r \<in> set out.
      frequency r = Some (occurrences (term r) (emissions capitals_env ?texts))"
  proof
    fix r assume "r \<in> set out"
    with out(4) obtain raw where
      r: "r = raw\<lparr>frequency := Some (occurrences (term r) (emissions capitals_env ?texts)),
                    confidence :=
                      (if occurrences (term r) (emissions capitals_env ?texts) > 3
                       then min 1 (confidence raw + 0.1) else confidence raw)\<rparr>"
      by blast
    show "frequency r = Some (occurrences (term r) (emissions capitals_env ?texts))"
      using arg_cong [OF r, of frequency] by simp
  qed
  from out(1) have "out =
      [\<lparr>term = [82, 67], type = Pattern, confidence = 0.8, frequency = Some 4\<rparr>,
       \<lparr>term = [80, 67], type = Pattern, confidence = 0.7, frequency = Some 3\<rparr>]"
    by (simp add: four_files)
  with out(1,2,3) freq show ?thesis by blast
qed

section \<open>Building the engine\<close>

lemma rc_plain: "generate_aliases [82, 67] = [] \<and> categorize_term [82, 67] = general"
  by (simp add: generate_aliases_def categorize_term_def abbreviation_map_def categories_def
      particle_no_def)

lemma pc_plain: "generate_aliases [80, 67] = [] \<and> categorize_term [80, 67] = general"
  by (simp add: generate_aliases_def categorize_term_def abbreviation_map_def categories_def
      particle_no_def)

lemma build_rc:
  "build_from_terms sample_env [rc_info] new_database empty_disk =
     (None, db_rc, save db_rc empty_disk)"
  by (simp add: build_from_terms_def Let_def new_database_def rc_info_def rc_plain
      record_of_def doc_of_def db_rc_def sample_env_def)

lemma build_rc_pc:
  "build_from_terms sample_env [rc_info, pc_info] new_database empty_disk =
     (None, db_rc_pc, save db_rc_pc empty_disk)"
  by (simp add: build_from_terms_def Let_def new_database_def rc_info_def pc_info_def
      rc_plain pc_plain record_of_def doc_of_def db_rc_pc_def sample_env_def)

lemma build_empty:
  "build_from_terms sample_env [] new_database empty_disk =
     (Some ValueError, db_empty_built, empty_disk)"
  by (simp add: build_from_terms_def new_database_def db_empty_built_def)

text \<open>
  What the loop does in general: it appends one record per ingested term to the records
  the engine already holds, and numbers the new records from 0.
\<close>

lemma build_loop_ids:
  "map rec_id (fst (build_loop env i terms (tdata, vectors, docs))) =
     map rec_id tdata @ [i ..< i + length terms] \<and>
   map rec_term (fst (build_loop env i terms (tdata, vectors, docs))) =
     map rec_term tdata @ map term terms"
proof (induction terms arbitrary: i tdata vectors docs)
  case Nil
  then show ?case by simp
next
  case (Cons t terms)
  have "[i ..< i + length (t # terms)] = i # [Suc i ..< Suc i + length terms]"
    by (simp add: upt_conv_Cons del: upt_Suc)
  then show ?case
    by (simp add: Let_def Cons.IH del: upt_Suc)
qed

lemma build_appends:
  "map rec_id (terms_data (fst (snd (build_from_terms env terms db d)))) =
     map rec_id (terms_data db) @ [0 ..< length terms] \<and>
   map rec_term (terms_data (fst (snd (build_from_terms env terms db d)))) =
     map rec_term (terms_data db) @ map term terms"
proof -
  obtain tdata vectors docs where
    l: "build_loop env 0 terms (terms_data db, [], []) = (tdata, vectors, docs)"
    by (cases "build_loop env 0 terms (terms_data db, [], [])") auto
  have "fst (build_loop env 0 terms (terms_data db, [], [])) = tdata" by (simp add: l)
  then have "map rec_id tdata = map rec_id (terms_data db) @ [0 ..< length terms] \<and>
     map rec_term tdata = map rec_term (terms_data db) @ map term terms"
    using build_loop_ids [of env 0 terms "terms_data db" "[]" "[]"] by simp
  then show ?thesis
    by (simp add: build_from_terms_def Let_def l)
qed

text \<open>
  C3 fails on a rebuild. The engine built from "RC" is rebuilt from "PC": the vector
  index is replaced, but the record of "RC" stays in \<open>terms_data\<close> and in the full-text
  index, and both records carry the identifier 0. The vector search for "PC" then
  answers with the record of "RC", because label 0 of the new vector index is position 0
  of the old list.
\<close>

theorem rebuild_keeps_previous_records:
  "build_from_terms sample_env [rc_info] new_database empty_disk =
     (None, db_rc, save db_rc empty_disk) \<and>
   build_from_terms sample_env [pc_info] db_rc (save db_rc empty_disk) =
     (None, db_rebuilt, save db_rebuilt (save db_rc empty_disk)) \<and>
   map rec_term (terms_data db_rebuilt) = [[82, 67], [80, 67]] \<and>
   map rec_id (terms_data db_rebuilt) = [0, 0] \<and>
   map doc_id (whoosh_index db_rebuilt) = [0, 0] \<and>
   search_vector sample_env db_rebuilt [80, 67] 1 = Inr [(record_of 0 [82, 67], 1)]"
  by (simp add: build_rc)
     (simp add: build_from_terms_def Let_def pc_info_def pc_plain record_of_def doc_of_def
       db_rc_def db_rebuilt_def sample_env_def search_vector_def flat_l2_search_def
       l2_distance_def py_index_def)

section \<open>Searching\<close>

lemma text_results_no_records: "text_results [] hits = []"
  by (induction hits) auto

lemma final_results_no_records: "final_results [] combined ts = Inr []"
  by (induction ts) auto

text \<open>An engine that was never built or loaded answers every search with the empty list.\<close>

lemma never_built_searches:
  assumes "faiss_index db = None" and "terms_data db = []"
  shows "search_vector env db q k = Inr [] \<and> search_text env db q k = [] \<and>
         hybrid_search env db q k alpha = Inr []"
  using assms
  by (simp add: search_vector_def search_text_def hybrid_search_def text_results_no_records
      final_results_no_records merge_results_def sort_reverse_def py_slice_to_def)

text \<open>
  C5 fails when the vector index exists and holds no vector, which is the state
  \<open>build_from_terms\<close> leaves when it is given no term: the index answers with the label
  \<open>-1\<close>, which passes the test \<open>idx < len(self.terms_data)\<close>, and indexing the empty
  list raises.
\<close>

theorem search_empty_index_raises:
  "build_from_terms sample_env [] new_database empty_disk =
     (Some ValueError, db_empty_built, empty_disk) \<and>
   terms_data db_empty_built = [] \<and>
   search_vector sample_env db_empty_built [82, 67] 1 = Inl IndexError \<and>
   hybrid_search sample_env db_empty_built [82, 67] 1 (1 / 2) = Inl IndexError"
  by (simp add: build_empty)
     (simp add: hybrid_search_def search_vector_def db_empty_built_def sample_env_def
       flat_l2_search_def py_index_def eval_nat_numeral)

lemma flat_l2_three:
  "flat_l2_search [[82, 67], [80, 67]] [82, 67] 3 = [(0, 0), (1, 4), (- 1, flt_max)]"
  by (simp add: flat_l2_search_def l2_distance_def)

text \<open>
  C10 fails when \<open>k\<close> exceeds the number of records: of three neighbours asked from an
  index of two vectors the third has the label \<open>-1\<close>, and \<open>self.terms_data[-1]\<close> is the
  last record, which is returned a second time with the score of the largest distance.
\<close>

theorem search_vector_sentinel_returns_last_record:
  "build_from_terms sample_env [rc_info, pc_info] new_database empty_disk =
     (None, db_rc_pc, save db_rc_pc empty_disk) \<and>
   faiss_search sample_env [[82, 67], [80, 67]] (encode sample_env [82, 67]) 3 =
     [(0, 0), (1, 4), (- 1, flt_max)] \<and>
   search_vector sample_env db_rc_pc [82, 67] 3 =
     Inr [(record_of 0 [82, 67], 1), (record_of 1 [80, 67], 1 / 5),
          (record_of 1 [80, 67], 1 / (1 + flt_max))]"
  by (simp add: build_rc_pc)
     (simp add: search_vector_def db_rc_pc_def sample_env_def flat_l2_three py_index_def)

section \<open>Loading\<close>

text \<open>
  C4 (as the code has it): \<open>load\<close> never raises, whatever fails inside it; a failed load
  leaves the record collection (and the full-text index) as it was; and when the file of
  the vector index is the one that cannot be read, the engine is left as it was before.
\<close>

theorem load_failure:
  "fst (load d db) = None \<and>
   (fst (load_try d db) \<noteq> None \<longrightarrow>
      terms_data (snd (load d db)) = terms_data db \<and>
      whoosh_index (snd (load d db)) = whoosh_index db) \<and>
   (faiss_file d = Unreadable \<longrightarrow> snd (load d db) = db)"
  by (simp add: load_def load_try_def Let_def split: disk_file.splits prod.splits)

theorem load_failure_witness:
  "fst (load_try \<lparr>faiss_file = Unreadable, terms_file = Missing, metadata_file = Missing\<rparr>
          new_database) = Some ReadError \<and>
   load \<lparr>faiss_file = Unreadable, terms_file = Missing, metadata_file = Missing\<rparr>
     new_database = (None, new_database)"
  using load_failure
    [of "\<lparr>faiss_file = Unreadable, terms_file = Missing, metadata_file = Missing\<rparr>"
        new_database]
  by (simp add: load_try_def prod_eq_iff)

text \<open>
  C4 (as stated) fails: when the vector index is read and the records file cannot be,
  the \<open>try\<close> block raises, \<open>load\<close> returns normally, and the engine holds the vector
  index of the disk with the records it had before.
\<close>

theorem load_failure_partly_populated:
  "fst (load_try \<lparr>faiss_file = Stored [[82, 67]], terms_file = Unreadable,
                   metadata_file = Missing\<rparr> new_database) = Some ReadError \<and>
   load \<lparr>faiss_file = Stored [[82, 67]], terms_file = Unreadable, metadata_file = Missing\<rparr>
     new_database =
     (None, \<lparr>faiss_index = Some [[82, 67]], terms_data = [], whoosh_index = []\<rparr>) \<and>
   new_database = \<lparr>faiss_index = None, terms_data = [], whoosh_index = []\<rparr>"
  by (simp add: load_def load_try_def new_database_def)

section \<open>The merge of the hybrid search\<close>

lemma set_add_set: "set (set_add x xs) = insert x (set xs)"
  by (auto simp: set_add_def)

lemma set_add_distinct: "distinct xs \<Longrightarrow> distinct (set_add x xs)"
  by (simp add: set_add_def)

lemma process_vector_set:
  "set (fst (process_vector alpha V (seen, m))) = set seen \<union> set (terms_of V)"
proof (induction V arbitrary: seen m)
  case Nil
  then show ?case by (simp add: terms_of_def)
next
  case (Cons r V)
  obtain d s where r: "r = (d, s)" by (cases r)
  show ?case by (simp add: r Cons.IH set_add_set terms_of_def)
qed

lemma process_vector_distinct:
  "distinct seen \<Longrightarrow> distinct (fst (process_vector alpha V (seen, m)))"
proof (induction V arbitrary: seen m)
  case Nil
  then show ?case by simp
next
  case (Cons r V)
  obtain d s where r: "r = (d, s)" by (cases r)
  show ?case using Cons.prems by (simp add: r Cons.IH set_add_distinct)
qed

lemma process_text_set:
  "set (fst (process_text alpha T (seen, m))) = set seen \<union> set (terms_of T)"
proof (induction T arbitrary: seen m)
  case Nil
  then show ?case by (simp add: terms_of_def)
next
  case (Cons r T)
  obtain d s where r: "r = (d, s)" by (cases r)
  show ?case by (simp add: r Cons.IH set_add_set terms_of_def)
qed

lemma process_text_distinct:
  "distinct seen \<Longrightarrow> distinct (fst (process_text alpha T (seen, m)))"
proof (induction T arbitrary: seen m)
  case Nil
  then show ?case by simp
next
  case (Cons r T)
  obtain d s where r: "r = (d, s)" by (cases r)
  show ?case using Cons.prems by (simp add: r Cons.IH set_add_distinct)
qed

lemma find_append:
  "find P (xs @ ys) = (case find P xs of Some x \<Rightarrow> Some x | None \<Rightarrow> find P ys)"
  by (induction xs) auto

lemma process_vector_scores:
  "snd (process_vector alpha V (seen, m)) t =
     (case find (\<lambda>r. rec_term (fst r) = t) (rev V) of
        Some r \<Rightarrow> Some (alpha * snd r) | None \<Rightarrow> m t)"
proof (induction V arbitrary: seen m)
  case Nil
  then show ?case by simp
next
  case (Cons r V)
  obtain d s where r: "r = (d, s)" by (cases r)
  show ?case
    by (simp add: r Cons.IH find_append split: option.splits)
qed


lemma score_sum_Cons:
  "score_sum (r # T) t = (if rec_term (fst r) = t then snd r else 0) + score_sum T t"
  by (simp add: score_sum_def)

lemma score_sum_absent: "t \<notin> set (terms_of T) \<Longrightarrow> score_sum T t = 0"
  by (induction T) (auto simp: score_sum_def terms_of_def)

lemma process_text_scores:
  "snd (process_text alpha T (seen, m)) t =
     (if t \<in> set (terms_of T)
      then Some ((case m t of Some c \<Rightarrow> c | None \<Rightarrow> 0) + (1 - alpha) * score_sum T t)
      else m t)"
proof (induction T arbitrary: seen m)
  case Nil
  then show ?case by (simp add: terms_of_def)
next
  case (Cons r T)
  obtain d s where r: "r = (d, s)" by (cases r)
  have tl: "terms_of ((d, s) # T) = rec_term d # terms_of T" by (simp add: terms_of_def)
  show ?case
    by (simp add: r tl Cons.IH score_sum_Cons score_sum_absent algebra_simps split: option.splits)
qed


lemma find_Some_holds: "find P xs = Some x \<Longrightarrow> P x \<and> x \<in> set xs"
  by (induction xs) (auto split: if_splits)

lemma in_terms_of: "r \<in> set V \<Longrightarrow> rec_term (fst r) \<in> set (terms_of V)"
  by (simp add: terms_of_def)

lemma find_term_None:
  "find (\<lambda>r. rec_term (fst r) = t) V = None \<longleftrightarrow> t \<notin> set (terms_of V)"
  by (induction V) (auto simp: terms_of_def)

lemma terms_of_rev: "set (terms_of (rev V)) = set (terms_of V)"
  by (simp add: terms_of_def)

lemma score_of_absent: "t \<notin> set (terms_of V) \<Longrightarrow> score_of V t = 0"
  using find_term_None [of t V] by (simp add: score_of_def)

lemma last_score_absent: "t \<notin> set (terms_of V) \<Longrightarrow> last_score V t = 0"
  by (simp add: last_score_def score_of_absent terms_of_rev)

lemma combined_scores:
  assumes "process_text alpha T (process_vector alpha V ([], Map.empty)) = (A, C)"
  shows "distinct A \<and> set A = set (terms_of V) \<union> set (terms_of T) \<and>
         (\<forall>t \<in> set A. C t = Some (alpha * last_score V t + (1 - alpha) * score_sum T t))"
proof -
  obtain A0 C0 where pv: "process_vector alpha V ([], Map.empty) = (A0, C0)"
    by (cases "process_vector alpha V ([], Map.empty)")
  have A0: "distinct A0" "set A0 = set (terms_of V)"
    using process_vector_distinct [of "[]" alpha V Map.empty]
      process_vector_set [of alpha V "[]" Map.empty] pv by simp_all
  have C0: "C0 t = (case find (\<lambda>r. rec_term (fst r) = t) (rev V) of
                      Some r \<Rightarrow> Some (alpha * snd r) | None \<Rightarrow> None)" for t
    using process_vector_scores [of alpha V "[]" Map.empty t] pv by simp
  have C0_in: "C0 t = Some (alpha * last_score V t)" if "t \<in> set (terms_of V)" for t
  proof -
    from that have "find (\<lambda>r. rec_term (fst r) = t) (rev V) \<noteq> None"
      by (simp add: find_term_None terms_of_rev)
    then show ?thesis
      by (auto simp: C0 last_score_def score_of_def)
  qed
  have C0_out: "C0 t = None" if "t \<notin> set (terms_of V)" for t
  proof -
    from that have "find (\<lambda>r. rec_term (fst r) = t) (rev V) = None"
      by (simp add: find_term_None terms_of_rev)
    then show ?thesis by (simp add: C0)
  qed
  from assms pv have pt: "process_text alpha T (A0, C0) = (A, C)" by simp
  have A: "distinct A" "set A = set (terms_of V) \<union> set (terms_of T)"
    using process_text_distinct [OF A0(1), of alpha T C0]
      process_text_set [of alpha T A0 C0] pt A0(2) by simp_all
  have C: "C t = (if t \<in> set (terms_of T)
      then Some ((case C0 t of Some c \<Rightarrow> c | None \<Rightarrow> 0) + (1 - alpha) * score_sum T t)
      else C0 t)" for t
    using process_text_scores [of alpha T A0 C0 t] pt by simp
  have "C t = Some (alpha * last_score V t + (1 - alpha) * score_sum T t)" if "t \<in> set A" for t
  proof (cases "t \<in> set (terms_of V)")
    case True
    then show ?thesis
      by (simp add: C C0_in score_sum_absent)
  next
    case False
    with that A(2) have "t \<in> set (terms_of T)" by simp
    with False show ?thesis
      by (simp add: C C0_out last_score_absent)
  qed
  with A show ?thesis by simp
qed

lemma final_results_rows:
  assumes "\<forall>t \<in> set ts. C t = Some (f t)"
    and "\<forall>t \<in> set ts. \<exists>d \<in> set tdata. rec_term d = t"
  shows "\<exists>R. final_results tdata C ts = Inr R \<and> terms_of R = ts \<and>
           (\<forall>r \<in> set R. find (\<lambda>d. rec_term d = rec_term (fst r)) tdata = Some (fst r) \<and>
                         snd r = f (rec_term (fst r)))"
  using assms
proof (induction ts)
  case Nil
  then show ?case by (simp add: terms_of_def)
next
  case (Cons t ts)
  from Cons.prems(2) have "find (\<lambda>d. rec_term d = t) tdata \<noteq> None"
    by (auto simp: find_None_iff)
  then obtain d where d: "find (\<lambda>d. rec_term d = t) tdata = Some d" by auto
  then have dt: "rec_term d = t" by (auto dest: find_Some_holds)
  from Cons.prems obtain R where
    R: "final_results tdata C ts = Inr R" "terms_of R = ts"
       "\<forall>r \<in> set R. find (\<lambda>d. rec_term d = rec_term (fst r)) tdata = Some (fst r) \<and>
                     snd r = f (rec_term (fst r))"
    using Cons.IH by auto
  have "final_results tdata C (t # ts) = Inr ((d, f t) # R)"
    using Cons.prems(1) d R(1) by simp
  moreover have "terms_of ((d, f t) # R) = t # ts"
    using R(2) dt by (simp add: terms_of_def)
  ultimately show ?case using R(3) d dt by auto
qed

lemma py_index_in_set: "py_index xs i = Inr x \<Longrightarrow> x \<in> set xs"
  by (auto simp: py_index_def split: if_splits)

lemma vector_results_from_records:
  "vector_results tdata hits = Inr V \<Longrightarrow> r \<in> set V \<Longrightarrow> fst r \<in> set tdata"
proof (induction hits arbitrary: V)
  case Nil
  then show ?case by simp
next
  case (Cons h hits)
  obtain idx distance where h: "h = (idx, distance)" by (cases h)
  show ?case
  proof (cases "idx < int (length tdata)")
    case False
    with Cons.prems show ?thesis by (simp add: h Cons.IH)
  next
    case True
    with Cons.prems(1) obtain d V' where
      d: "py_index tdata idx = Inr d" and V': "vector_results tdata hits = Inr V'" and
      V: "V = (d, 1 / (1 + distance)) # V'"
      by (auto simp: h split: sum.splits)
    from Cons.prems(2) V have "r = (d, 1 / (1 + distance)) \<or> r \<in> set V'" by auto
    then show ?thesis
      using py_index_in_set [OF d] Cons.IH [OF V'] by auto
  qed
qed

lemma text_results_from_records: "r \<in> set (text_results tdata hits) \<Longrightarrow> fst r \<in> set tdata"
proof (induction hits)
  case Nil
  then show ?case by simp
next
  case (Cons h hits)
  obtain idx sc where h: "h = (idx, sc)" by (cases h)
  from Cons.prems show ?case
    by (auto simp: h split: if_splits dest: Cons.IH)
qed

lemma merge_results_rows:
  assumes order: "iterates_elements env"
    and V: "\<forall>r \<in> set V. fst r \<in> set tdata"
    and T: "\<forall>r \<in> set T. fst r \<in> set tdata"
  shows "\<exists>R. merge_results env tdata alpha V T = Inr (sort_reverse snd R) \<and>
           distinct (terms_of R) \<and>
           set (terms_of R) = set (terms_of V) \<union> set (terms_of T) \<and>
           (\<forall>r \<in> set R.
              find (\<lambda>d. rec_term d = rec_term (fst r)) tdata = Some (fst r) \<and>
              snd r = alpha * last_score V (rec_term (fst r)) +
                      (1 - alpha) * score_sum T (rec_term (fst r)))"
proof -
  obtain A C where AC: "process_text alpha T (process_vector alpha V ([], Map.empty)) = (A, C)"
    by (cases "process_text alpha T (process_vector alpha V ([], Map.empty))")
  note c = combined_scores [OF AC]
  let ?ts = "set_order env A"
  from order c have ts: "distinct ?ts" "set ?ts = set (terms_of V) \<union> set (terms_of T)"
    by (auto simp: iterates_elements_def)
  have sc: "\<forall>t \<in> set ?ts. C t = Some (alpha * last_score V t + (1 - alpha) * score_sum T t)"
    using c ts by simp
  have ex: "\<forall>t \<in> set ?ts. \<exists>d \<in> set tdata. rec_term d = t"
    using ts(2) V T by (auto simp: terms_of_def)
  from final_results_rows [OF sc ex] obtain R where
    R: "final_results tdata C ?ts = Inr R" "terms_of R = ?ts"
       "\<forall>r \<in> set R. find (\<lambda>d. rec_term d = rec_term (fst r)) tdata = Some (fst r) \<and>
          snd r = alpha * last_score V (rec_term (fst r)) +
                  (1 - alpha) * score_sum T (rec_term (fst r))"
    by blast
  have "merge_results env tdata alpha V T = Inr (sort_reverse snd R)"
    by (simp add: merge_results_def AC R(1))
  with R ts show ?thesis by auto
qed


lemma find_rev_distinct:
  "distinct (map g xs) \<Longrightarrow> find (\<lambda>r. g r = t) (rev xs) = find (\<lambda>r. g r = t) xs"
proof (induction xs)
  case Nil
  then show ?case by simp
next
  case (Cons x xs)
  show ?case
  proof (cases "g x = t")
    case True
    with Cons.prems have "find (\<lambda>r. g r = t) (rev xs) = None"
      by (auto simp: find_None_iff image_iff)
    with True show ?thesis by (simp add: find_append)
  next
    case False
    with Cons show ?thesis by (simp add: find_append split: option.splits)
  qed
qed

lemma last_score_distinct: "distinct (terms_of V) \<Longrightarrow> last_score V t = score_of V t"
  using find_rev_distinct [of "\<lambda>r. rec_term (fst r)" V t]
  by (simp add: last_score_def score_of_def terms_of_def)

lemma score_sum_distinct: "distinct (terms_of T) \<Longrightarrow> score_sum T t = score_of T t"
proof (induction T)
  case Nil
  then show ?case by (simp add: score_sum_def score_of_def)
next
  case (Cons r T)
  from Cons.prems have d: "distinct (terms_of T)" and n: "rec_term (fst r) \<notin> set (terms_of T)"
    by (simp_all add: terms_of_def)
  show ?case
  proof (cases "rec_term (fst r) = t")
    case True
    with n have "score_sum T t = 0" by (simp add: score_sum_absent)
    with True show ?thesis by (simp add: score_sum_Cons score_of_def)
  next
    case False
    then show ?thesis using Cons.IH [OF d] by (simp add: score_sum_Cons score_of_def)
  qed
qed

lemma search_vector_from_records:
  "search_vector env db q k = Inr V \<Longrightarrow> \<forall>r \<in> set V. fst r \<in> set (terms_data db)"
  by (auto simp: search_vector_def split: option.splits dest: vector_results_from_records)

lemma search_text_from_records:
  "\<forall>r \<in> set (search_text env db q k). fst r \<in> set (terms_data db)"
  by (auto simp: search_text_def dest: text_results_from_records)

lemma hybrid_search_rows:
  assumes order: "iterates_elements env"
    and V: "search_vector env db q (k * 2) = Inr V"
  shows "\<exists>M. hybrid_search env db q k alpha = Inr (py_slice_to M k) \<and>
           sorted (rev (map snd M)) \<and>
           distinct (terms_of M) \<and>
           set (terms_of M) = set (terms_of V) \<union> set (terms_of (search_text env db q (k * 2))) \<and>
           (\<forall>r \<in> set M.
              find (\<lambda>d. rec_term d = rec_term (fst r)) (terms_data db) = Some (fst r) \<and>
              snd r = alpha * last_score V (rec_term (fst r)) +
                      (1 - alpha) * score_sum (search_text env db q (k * 2)) (rec_term (fst r)))"
proof -
  let ?T = "search_text env db q (k * 2)"
  from merge_results_rows [OF order search_vector_from_records [OF V]
      search_text_from_records [of env db q "k * 2"], where alpha = alpha]
  obtain R where
    R: "merge_results env (terms_data db) alpha V ?T = Inr (sort_reverse snd R)"
       "distinct (terms_of R)"
       "set (terms_of R) = set (terms_of V) \<union> set (terms_of ?T)"
       "\<forall>r \<in> set R.
          find (\<lambda>d. rec_term d = rec_term (fst r)) (terms_data db) = Some (fst r) \<and>
          snd r = alpha * last_score V (rec_term (fst r)) +
                  (1 - alpha) * score_sum ?T (rec_term (fst r))"
    by blast
  let ?M = "sort_reverse snd R"
  have h: "hybrid_search env db q k alpha = Inr (py_slice_to ?M k)"
    by (simp add: hybrid_search_def V R(1))
  have d: "distinct (terms_of ?M)"
    using distinct_map_sort_reverse [of "\<lambda>r. rec_term (fst r)" R snd] R(2)
    by (simp add: terms_of_def)
  have s: "set (terms_of ?M) = set (terms_of V) \<union> set (terms_of ?T)"
    using R(3) by (simp add: terms_of_def set_sort_reverse)
  show ?thesis
    using h d s R(4) sorted_sort_reverse [of snd R]
    by (intro exI [of _ ?M]) (simp add: set_sort_reverse)
qed

lemma find_distinct:
  "distinct (map g xs) \<Longrightarrow> x \<in> set xs \<Longrightarrow> find (\<lambda>r. g r = g x) xs = Some x"
  by (induction xs) (auto simp: image_iff)

lemma score_of_row:
  "distinct (terms_of X) \<Longrightarrow> r \<in> set X \<Longrightarrow> score_of X (rec_term (fst r)) = snd r"
  using find_distinct [of "\<lambda>r. rec_term (fst r)" X r]
  by (simp add: score_of_def terms_of_def)

lemma descending_strict:
  "sorted_wrt (\<lambda>a b. a > b) (xs :: real list) \<Longrightarrow> sorted (rev xs) \<and> distinct xs"
  by (induction xs) (auto simp: sorted_append less_imp_le)

lemma descending_unique:
  assumes M: "sorted (rev (map snd M))" and dM: "distinct M"
    and eq: "set M = set X" and X: "sorted_wrt (\<lambda>a b. a > b) (map snd X)"
  shows "M = (X :: scored list)"
proof -
  from X have sX: "sorted (rev (map snd X))" and dX: "distinct (map snd X)"
    using descending_strict by blast+
  from dX have inj: "inj_on snd (set X)" by (simp add: distinct_map)
  with dM eq have dsM: "distinct (map snd M)" by (simp add: distinct_map)
  have "rev (map snd M) = rev (map snd X)"
    using M sX dsM dX eq by (intro sorted_distinct_set_unique) simp_all
  then have "map snd M = map snd X" by simp
  moreover have "inj_on snd (set M \<union> set X)" using inj eq by simp
  ultimately show ?thesis by (simp add: inj_on_map_eq_map)
qed

lemma rows_equal:
  assumes sM: "sorted (rev (map snd M))"
    and dM: "distinct (terms_of M)"
    and tM: "set (terms_of M) = set (terms_of X)"
    and rows: "\<forall>r \<in> set M. find (\<lambda>d. rec_term d = rec_term (fst r)) tdata = Some (fst r) \<and>
                 snd r = score_of X (rec_term (fst r))"
    and dX: "distinct (terms_of X)"
    and sX: "sorted_wrt (\<lambda>a b. a > b) (map snd X)"
    and fromX: "\<forall>r \<in> set X. fst r \<in> set tdata"
    and dt: "distinct (map rec_term tdata)"
  shows "M = X"
proof -
  have same: "r = x" if r: "r \<in> set M" and x: "x \<in> set X"
    and t: "rec_term (fst x) = rec_term (fst r)" for r x
  proof -
    from fromX x have "find (\<lambda>d. rec_term d = rec_term (fst x)) tdata = Some (fst x)"
      using find_distinct [OF dt, of "fst x"] by simp
    with rows r t have "fst r = fst x" by simp
    moreover from rows r t have "snd r = snd x"
      using score_of_row [OF dX x] by simp
    ultimately show ?thesis by (simp add: prod_eq_iff)
  qed
  have "set M = set X"
  proof (intro equalityI subsetI)
    fix r assume r: "r \<in> set M"
    then have "rec_term (fst r) \<in> set (terms_of X)" using tM in_terms_of by blast
    then obtain x where x: "x \<in> set X" "rec_term (fst x) = rec_term (fst r)"
      by (auto simp: terms_of_def)
    with same [OF r x] show "r \<in> set X" by simp
  next
    fix x assume x: "x \<in> set X"
    then have "rec_term (fst x) \<in> set (terms_of M)" using tM in_terms_of by blast
    then obtain r where r: "r \<in> set M" "rec_term (fst x) = rec_term (fst r)"
      by (auto simp: terms_of_def)
    with same [OF r(1) x] show "x \<in> set M" by simp
  qed
  moreover from dM have "distinct M" by (simp add: terms_of_def distinct_map)
  ultimately show ?thesis using descending_unique [OF sM _ _ sX] by simp
qed

lemma sample_env_iterates: "iterates_elements sample_env"
  by (simp add: iterates_elements_def sample_env_def)

lemma dense_rc_two:
  "search_vector sample_env db_rc_pc [82, 67] 2 =
     Inr [(record_of 0 [82, 67], 1), (record_of 1 [80, 67], 1 / 5)]"
  by (simp add: search_vector_def db_rc_pc_def sample_env_def flat_l2_search_def
      l2_distance_def py_index_def)

lemma sparse_rc_two:
  "search_text sample_env db_rc_pc [82, 67] 2 = [(record_of 0 [82, 67], 1)]"
  by (simp add: search_text_def db_rc_pc_def sample_env_def substring_search_def doc_of_def)

lemma rc_pc_terms_differ: "distinct (map rec_term (terms_data db_rc_pc))"
  by (simp add: db_rc_pc_def record_of_def)

text \<open>
  C1 (as the code has it): the merge is by term, not by record identifier. Provided no
  two rows of the dense results carry the same term, and no two rows of the sparse
  results do, \<open>hybrid_search\<close> returns the first \<open>k\<close> rows of a list \<open>M\<close> that is sorted by
  descending score and holds exactly one row for each term found by either search: the
  first record of the collection that carries the term, with the score
  \<open>alpha * dense + (1 - alpha) * sparse\<close>, where the score of a term on a side is 0 when
  that side did not find it.
\<close>

theorem hybrid_search_merges_by_term:
  assumes order: "iterates_elements env"
    and V: "search_vector env db q (k * 2) = Inr V"
    and dV: "distinct (terms_of V)"
    and dT: "distinct (terms_of (search_text env db q (k * 2)))"
  shows "\<exists>M. hybrid_search env db q k alpha = Inr (py_slice_to M k) \<and>
           sorted (rev (map snd M)) \<and>
           distinct (terms_of M) \<and>
           set (terms_of M) = set (terms_of V) \<union> set (terms_of (search_text env db q (k * 2))) \<and>
           (\<forall>r \<in> set M.
              find (\<lambda>d. rec_term d = rec_term (fst r)) (terms_data db) = Some (fst r) \<and>
              snd r = alpha * score_of V (rec_term (fst r)) +
                      (1 - alpha) * score_of (search_text env db q (k * 2)) (rec_term (fst r)))"
  using hybrid_search_rows [OF order V, of alpha]
  by (simp add: last_score_distinct [OF dV] score_sum_distinct [OF dT])

theorem hybrid_search_merges_by_term_witness:
  "\<exists>M. hybrid_search sample_env db_rc_pc [82, 67] 1 (1 / 2) = Inr (py_slice_to M 1) \<and>
       sorted (rev (map snd M)) \<and>
       distinct (terms_of M) \<and>
       set (terms_of M) =
         set (terms_of [(record_of 0 [82, 67], 1), (record_of 1 [80, 67], 1 / 5)]) \<union>
         set (terms_of (search_text sample_env db_rc_pc [82, 67] (1 * 2))) \<and>
       (\<forall>r \<in> set M.
          find (\<lambda>d. rec_term d = rec_term (fst r)) (terms_data db_rc_pc) = Some (fst r) \<and>
          snd r =
            1 / 2 * score_of [(record_of 0 [82, 67], 1), (record_of 1 [80, 67], 1 / 5)]
                      (rec_term (fst r)) +
            (1 - 1 / 2) * score_of (search_text sample_env db_rc_pc [82, 67] (1 * 2))
                            (rec_term (fst r)))"
proof -
  have dV: "distinct (terms_of [(record_of 0 [82, 67], 1), (record_of 1 [80, 67], 1 / 5)])"
    by (simp add: terms_of_def record_of_def)
  have dT: "distinct (terms_of (search_text sample_env db_rc_pc [82, 67] (1 * 2)))"
    by (simp add: sparse_rc_two terms_of_def)
  have V: "search_vector sample_env db_rc_pc [82, 67] (1 * 2) =
      Inr [(record_of 0 [82, 67], 1), (record_of 1 [80, 67], 1 / 5)]"
    by (simp add: dense_rc_two)
  show ?thesis
    by (rule hybrid_search_merges_by_term [OF sample_env_iterates V dV dT])
qed

lemma build_rc_rc:
  "build_from_terms sample_env [rc_info, rc_info] new_database empty_disk =
     (None, db_rc_rc, save db_rc_rc empty_disk)"
  by (simp add: build_from_terms_def Let_def new_database_def rc_info_def rc_plain
      record_of_def doc_of_def db_rc_rc_def sample_env_def)

text \<open>
  C1 (as stated) fails when two records carry the same term. Both records of "RC" are
  found by both searches with score 1, so with \<open>alpha = 1/2\<close> each record should give a row
  of score 1; the merge keys its table by the term, adds the sparse score of the second
  record to the entry of the first, and returns one row of score 3/2.
\<close>

theorem hybrid_search_same_term_counted_twice:
  "build_from_terms sample_env [rc_info, rc_info] new_database empty_disk =
     (None, db_rc_rc, save db_rc_rc empty_disk) \<and>
   search_vector sample_env db_rc_rc [82, 67] (1 * 2) =
     Inr [(record_of 0 [82, 67], 1), (record_of 1 [82, 67], 1)] \<and>
   search_text sample_env db_rc_rc [82, 67] (1 * 2) =
     [(record_of 0 [82, 67], 1), (record_of 1 [82, 67], 1)] \<and>
   hybrid_search sample_env db_rc_rc [82, 67] 1 (1 / 2) = Inr [(record_of 0 [82, 67], 3 / 2)] \<and>
   (3 / 2 :: real) \<noteq> 1 / 2 * 1 + (1 - 1 / 2) * 1"
  by (simp add: build_rc_rc)
     (simp add: hybrid_search_def merge_results_def search_vector_def search_text_def
       db_rc_rc_def sample_env_def flat_l2_search_def l2_distance_def py_index_def
       substring_search_def doc_of_def record_of_def set_add_def sort_reverse_def
       py_slice_to_def)

section \<open>The hybrid search at the ends of the range of alpha\<close>

lemma descending_split:
  "sorted (rev (map snd M)) \<Longrightarrow>
   M = filter (\<lambda>r. 0 < snd r) M @ filter (\<lambda>r. \<not> 0 < snd r) (M :: scored list)"
proof (induction M)
  case Nil
  then show ?case by simp
next
  case (Cons r M)
  from Cons.prems have s: "sorted (rev (map snd M))" and le: "\<forall>x \<in> set M. snd x \<le> snd r"
    by (auto simp: sorted_append)
  show ?case
  proof (cases "0 < snd r")
    case True
    with Cons.IH [OF s] show ?thesis by simp
  next
    case False
    with le have "\<forall>x \<in> set M. \<not> 0 < snd x" by force
    then have "filter (\<lambda>r. 0 < snd r) M = []" "filter (\<lambda>r. \<not> 0 < snd r) M = M"
      by (simp_all add: filter_empty_conv)
    with False show ?thesis by simp
  qed
qed

lemma sorted_rev_filter:
  "sorted (rev (map f xs)) \<Longrightarrow> sorted (rev (map f (filter P xs)))"
proof -
  assume "sorted (rev (map f xs))"
  then have "sorted (map f (rev xs))" by (simp add: rev_map)
  then have "sorted (map f (filter P (rev xs)))" by (rule sorted_filter)
  then show ?thesis by (simp add: rev_map rev_filter)
qed

lemma score_of_present:
  "distinct (terms_of X) \<Longrightarrow> t \<in> set (terms_of X) \<Longrightarrow>
   \<exists>x \<in> set X. rec_term (fst x) = t \<and> score_of X t = snd x"
  using score_of_row [of X] by (auto simp: terms_of_def)

lemma terms_of_member: "t \<in> set (terms_of M) \<Longrightarrow> \<exists>r \<in> set M. rec_term (fst r) = t"
  by (auto simp: terms_of_def)

lemma rows_split:
  assumes sM: "sorted (rev (map snd M))"
    and dM: "distinct (terms_of M)"
    and tM: "set (terms_of M) = set (terms_of X) \<union> set (terms_of Y)"
    and rows: "\<forall>r \<in> set M. find (\<lambda>d. rec_term d = rec_term (fst r)) tdata = Some (fst r) \<and>
                 snd r = score_of X (rec_term (fst r))"
    and dX: "distinct (terms_of X)"
    and sX: "sorted_wrt (\<lambda>a b. a > b) (map snd X)"
    and pos: "\<forall>x \<in> set X. 0 < snd x"
    and fromX: "\<forall>r \<in> set X. fst r \<in> set tdata"
    and dt: "distinct (map rec_term tdata)"
  shows "\<exists>Z. M = X @ Z \<and> distinct (terms_of Z) \<and>
           set (terms_of Z) = set (terms_of Y) - set (terms_of X) \<and>
           (\<forall>z \<in> set Z. snd z = 0)"
proof -
  let ?A = "filter (\<lambda>r. 0 < snd r) M"
  let ?Z = "filter (\<lambda>r. \<not> 0 < snd r) M"
  have positive: "0 < snd r \<longleftrightarrow> rec_term (fst r) \<in> set (terms_of X)" if "r \<in> set M" for r
  proof (cases "rec_term (fst r) \<in> set (terms_of X)")
    case True
    then obtain x where "x \<in> set X" "score_of X (rec_term (fst r)) = snd x"
      using score_of_present [OF dX] by blast
    with pos rows that True show ?thesis by simp
  next
    case False
    with rows that show ?thesis by (simp add: score_of_absent)
  qed
  have zero: "snd r = 0" if "r \<in> set ?Z" for r
  proof -
    from that have m: "r \<in> set M" and n: "\<not> 0 < snd r" by simp_all
    from positive [OF m] n have "rec_term (fst r) \<notin> set (terms_of X)" by simp
    with rows m show ?thesis by (simp add: score_of_absent)
  qed
  have split: "M = ?A @ ?Z" using descending_split [OF sM] .
  have tA: "set (terms_of ?A) = set (terms_of X)"
  proof (intro equalityI subsetI)
    fix t assume "t \<in> set (terms_of ?A)"
    then obtain r where "r \<in> set ?A" and rt: "rec_term (fst r) = t"
      using terms_of_member by blast
    then have r: "r \<in> set M" "0 < snd r" by simp_all
    from positive [OF r(1)] r(2) rt show "t \<in> set (terms_of X)" by simp
  next
    fix t assume t: "t \<in> set (terms_of X)"
    with tM have "t \<in> set (terms_of M)" by simp
    then obtain r where r: "r \<in> set M" "rec_term (fst r) = t"
      using terms_of_member by blast
    with t positive [OF r(1)] have "r \<in> set ?A" by simp
    from in_terms_of [OF this] r(2) show "t \<in> set (terms_of ?A)" by simp
  qed
  have tZ: "set (terms_of ?Z) = set (terms_of Y) - set (terms_of X)"
  proof (intro equalityI subsetI)
    fix t assume "t \<in> set (terms_of ?Z)"
    then obtain r where "r \<in> set ?Z" and rt: "rec_term (fst r) = t"
      using terms_of_member by blast
    then have r: "r \<in> set M" "\<not> 0 < snd r" by simp_all
    from positive [OF r(1)] r(2) rt have "t \<notin> set (terms_of X)" by simp
    moreover from in_terms_of [OF r(1)] rt have "t \<in> set (terms_of M)" by simp
    ultimately show "t \<in> set (terms_of Y) - set (terms_of X)" using tM by auto
  next
    fix t assume t: "t \<in> set (terms_of Y) - set (terms_of X)"
    with tM have "t \<in> set (terms_of M)" by simp
    then obtain r where r: "r \<in> set M" "rec_term (fst r) = t"
      using terms_of_member by blast
    with t positive [OF r(1)] have "r \<in> set ?Z" by simp
    from in_terms_of [OF this] r(2) show "t \<in> set (terms_of ?Z)" by simp
  qed
  have dA: "distinct (terms_of ?A)" and dZ: "distinct (terms_of ?Z)"
    using dM by (simp_all add: terms_of_def distinct_map_filter)
  have rowsA: "\<forall>r \<in> set ?A.
      find (\<lambda>d. rec_term d = rec_term (fst r)) tdata = Some (fst r) \<and>
      snd r = score_of X (rec_term (fst r))"
    using rows by simp
  have "?A = X"
    using rows_equal [OF sorted_rev_filter [OF sM] dA tA rowsA dX sX fromX dt] .
  with split have "M = X @ ?Z" by simp
  with dZ tZ zero show ?thesis by blast
qed

lemma py_slice_to_append:
  "0 \<le> k \<and> nat k \<le> length X \<or> Z = [] \<Longrightarrow> py_slice_to (X @ Z) k = py_slice_to X k"
  by (auto simp: py_slice_to_def)

lemma no_terms_no_rows: "set (terms_of Z) = {} \<Longrightarrow> Z = []"
  by (simp add: terms_of_def)

text \<open>
  C2 (as the code has it), for an engine whose records carry pairwise different terms.
  Let the dense search for \<open>2k\<close> return rows with pairwise different terms and strictly
  decreasing, positive scores. Then with \<open>alpha = 1\<close> the merged list is these rows, in
  their order and with their scores, followed by one row of score 0 for every term that
  only the sparse search for \<open>2k\<close> found, and \<open>hybrid_search\<close> returns its first \<open>k\<close> rows.
  So it returns exactly what \<open>search_vector\<close> returns for \<open>k\<close> when that is the first \<open>k\<close>
  rows of the dense search for \<open>2k\<close> and either the dense search for \<open>2k\<close> has at least
  \<open>k\<close> rows or every sparse hit is among them; otherwise the rows that only the sparse
  search found fill the result up with score 0. With \<open>alpha = 0\<close> the same holds with the
  roles of the two searches exchanged.
\<close>

theorem hybrid_search_alpha_extremes:
  assumes order: "iterates_elements env"
    and V: "search_vector env db q (k * 2) = Inr V"
    and T: "search_text env db q (k * 2) = T"
    and dt: "distinct (map rec_term (terms_data db))"
  shows "(distinct (terms_of V) \<and> sorted_wrt (\<lambda>a b. a > b) (map snd V) \<and>
          (\<forall>r \<in> set V. 0 < snd r) \<longrightarrow>
            (\<exists>Z. hybrid_search env db q k 1 = Inr (py_slice_to (V @ Z) k) \<and>
                 distinct (terms_of Z) \<and>
                 set (terms_of Z) = set (terms_of T) - set (terms_of V) \<and>
                 (\<forall>z \<in> set Z. snd z = 0)) \<and>
            (search_vector env db q k = Inr (py_slice_to V k) \<and>
             (0 \<le> k \<and> nat k \<le> length V \<or> set (terms_of T) \<subseteq> set (terms_of V)) \<longrightarrow>
               hybrid_search env db q k 1 = search_vector env db q k)) \<and>
         (distinct (terms_of T) \<and> sorted_wrt (\<lambda>a b. a > b) (map snd T) \<and>
          (\<forall>r \<in> set T. 0 < snd r) \<longrightarrow>
            (\<exists>Z. hybrid_search env db q k 0 = Inr (py_slice_to (T @ Z) k) \<and>
                 distinct (terms_of Z) \<and>
                 set (terms_of Z) = set (terms_of V) - set (terms_of T) \<and>
                 (\<forall>z \<in> set Z. snd z = 0)) \<and>
            (search_text env db q k = py_slice_to T k \<and>
             (0 \<le> k \<and> nat k \<le> length T \<or> set (terms_of V) \<subseteq> set (terms_of T)) \<longrightarrow>
               hybrid_search env db q k 0 = Inr (search_text env db q k)))"
proof (intro conjI impI)
  assume a: "distinct (terms_of V) \<and> sorted_wrt (\<lambda>a b. a > b) (map snd V) \<and>
             (\<forall>r \<in> set V. 0 < snd r)"
  from hybrid_search_rows [OF order V, of 1] T obtain M where
    M: "hybrid_search env db q k 1 = Inr (py_slice_to M k)"
       "sorted (rev (map snd M))" "distinct (terms_of M)"
       "set (terms_of M) = set (terms_of V) \<union> set (terms_of T)"
       "\<forall>r \<in> set M. find (\<lambda>d. rec_term d = rec_term (fst r)) (terms_data db) = Some (fst r) \<and>
          snd r = 1 * last_score V (rec_term (fst r)) + (1 - 1) * score_sum T (rec_term (fst r))"
    by blast
  from M(5) a have rows: "\<forall>r \<in> set M.
      find (\<lambda>d. rec_term d = rec_term (fst r)) (terms_data db) = Some (fst r) \<and>
      snd r = score_of V (rec_term (fst r))"
    by (simp add: last_score_distinct)
  from a have dV: "distinct (terms_of V)" and sV: "sorted_wrt (\<lambda>a b. a > b) (map snd V)"
    and pV: "\<forall>r \<in> set V. 0 < snd r" by simp_all
  from rows_split [OF M(2) M(3) M(4) rows dV sV pV search_vector_from_records [OF V] dt]
  obtain Z where Z: "M = V @ Z" "distinct (terms_of Z)"
    "set (terms_of Z) = set (terms_of T) - set (terms_of V)" "\<forall>z \<in> set Z. snd z = 0"
    by blast
  with M(1) show one: "\<exists>Z. hybrid_search env db q k 1 = Inr (py_slice_to (V @ Z) k) \<and>
      distinct (terms_of Z) \<and> set (terms_of Z) = set (terms_of T) - set (terms_of V) \<and>
      (\<forall>z \<in> set Z. snd z = 0)"
    by blast
  assume b: "search_vector env db q k = Inr (py_slice_to V k) \<and>
      (0 \<le> k \<and> nat k \<le> length V \<or> set (terms_of T) \<subseteq> set (terms_of V))"
  then have "0 \<le> k \<and> nat k \<le> length V \<or> Z = []"
    using Z(3) no_terms_no_rows [of Z] by auto
  then have "py_slice_to (V @ Z) k = py_slice_to V k" by (rule py_slice_to_append)
  with M(1) Z(1) b show "hybrid_search env db q k 1 = search_vector env db q k" by simp
next
  assume a: "distinct (terms_of T) \<and> sorted_wrt (\<lambda>a b. a > b) (map snd T) \<and>
             (\<forall>r \<in> set T. 0 < snd r)"
  from hybrid_search_rows [OF order V, of 0] T obtain M where
    M: "hybrid_search env db q k 0 = Inr (py_slice_to M k)"
       "sorted (rev (map snd M))" "distinct (terms_of M)"
       "set (terms_of M) = set (terms_of V) \<union> set (terms_of T)"
       "\<forall>r \<in> set M. find (\<lambda>d. rec_term d = rec_term (fst r)) (terms_data db) = Some (fst r) \<and>
          snd r = 0 * last_score V (rec_term (fst r)) + (1 - 0) * score_sum T (rec_term (fst r))"
    by blast
  from M(5) a have rows: "\<forall>r \<in> set M.
      find (\<lambda>d. rec_term d = rec_term (fst r)) (terms_data db) = Some (fst r) \<and>
      snd r = score_of T (rec_term (fst r))"
    by (simp add: score_sum_distinct)
  from M(4) have tM: "set (terms_of M) = set (terms_of T) \<union> set (terms_of V)" by auto
  from a have dT: "distinct (terms_of T)" and sT: "sorted_wrt (\<lambda>a b. a > b) (map snd T)"
    and pT: "\<forall>r \<in> set T. 0 < snd r" by simp_all
  have fromT: "\<forall>r \<in> set T. fst r \<in> set (terms_data db)"
    using search_text_from_records [of env db q "k * 2"] T by simp
  from rows_split [OF M(2) M(3) tM rows dT sT pT fromT dt]
  obtain Z where Z: "M = T @ Z" "distinct (terms_of Z)"
    "set (terms_of Z) = set (terms_of V) - set (terms_of T)" "\<forall>z \<in> set Z. snd z = 0"
    by blast
  with M(1) show "\<exists>Z. hybrid_search env db q k 0 = Inr (py_slice_to (T @ Z) k) \<and>
      distinct (terms_of Z) \<and> set (terms_of Z) = set (terms_of V) - set (terms_of T) \<and>
      (\<forall>z \<in> set Z. snd z = 0)"
    by blast
  assume b: "search_text env db q k = py_slice_to T k \<and>
      (0 \<le> k \<and> nat k \<le> length T \<or> set (terms_of V) \<subseteq> set (terms_of T))"
  then have "0 \<le> k \<and> nat k \<le> length T \<or> Z = []"
    using Z(3) no_terms_no_rows [of Z] by auto
  then have "py_slice_to (T @ Z) k = py_slice_to T k" by (rule py_slice_to_append)
  with M(1) Z(1) b show "hybrid_search env db q k 0 = Inr (search_text env db q k)" by simp
qed

lemma dense_rc_one:
  "search_vector sample_env db_rc_pc [82, 67] 1 = Inr [(record_of 0 [82, 67], 1)]"
  by (simp add: search_vector_def db_rc_pc_def sample_env_def flat_l2_search_def
      l2_distance_def py_index_def)

lemma sparse_rc_one:
  "search_text sample_env db_rc_pc [82, 67] 1 = [(record_of 0 [82, 67], 1)]"
  by (simp add: search_text_def db_rc_pc_def sample_env_def substring_search_def doc_of_def)

text \<open>
  The engine of "RC" and "PC", the query "RC" and \<open>k = 1\<close>: the dense search finds both
  records, the sparse search finds "RC" only. With \<open>alpha = 1\<close> the hybrid search returns
  what the dense search for one row returns, with \<open>alpha = 0\<close> what the sparse search for
  one row returns, and there the merged list ends with the row of "PC" at score 0.
\<close>

theorem hybrid_search_alpha_extremes_witness:
  "hybrid_search sample_env db_rc_pc [82, 67] 1 1 = search_vector sample_env db_rc_pc [82, 67] 1 \<and>
   search_vector sample_env db_rc_pc [82, 67] 1 = Inr [(record_of 0 [82, 67], 1)] \<and>
   hybrid_search sample_env db_rc_pc [82, 67] 1 0 =
     Inr (search_text sample_env db_rc_pc [82, 67] 1) \<and>
   search_text sample_env db_rc_pc [82, 67] 1 = [(record_of 0 [82, 67], 1)] \<and>
   (\<exists>Z. hybrid_search sample_env db_rc_pc [82, 67] 1 0 =
          Inr (py_slice_to ([(record_of 0 [82, 67], 1)] @ Z) 1) \<and>
        set (terms_of Z) = {[80, 67]} \<and> (\<forall>z \<in> set Z. snd z = 0))"
proof -
  let ?V = "[(record_of 0 [82, 67], 1 :: real), (record_of 1 [80, 67], 1 / 5)]"
  let ?T = "[(record_of 0 [82, 67], 1 :: real)]"
  have V2: "search_vector sample_env db_rc_pc [82, 67] (1 * 2) = Inr ?V"
    by (simp add: dense_rc_two)
  have T2: "search_text sample_env db_rc_pc [82, 67] (1 * 2) = ?T"
    by (simp add: sparse_rc_two)
  note ext = hybrid_search_alpha_extremes [OF sample_env_iterates V2 T2 rc_pc_terms_differ]
  have condV: "distinct (terms_of ?V) \<and> sorted_wrt (\<lambda>a b. a > b) (map snd ?V) \<and>
      (\<forall>r \<in> set ?V. 0 < snd r)"
    by (simp add: terms_of_def record_of_def)
  have condT: "distinct (terms_of ?T) \<and> sorted_wrt (\<lambda>a b. a > b) (map snd ?T) \<and>
      (\<forall>r \<in> set ?T. 0 < snd r)"
    by (simp add: terms_of_def)
  have preV: "search_vector sample_env db_rc_pc [82, 67] 1 = Inr (py_slice_to ?V 1) \<and>
      ((0::int) \<le> 1 \<and> nat 1 \<le> length ?V \<or> set (terms_of ?T) \<subseteq> set (terms_of ?V))"
    by (simp add: dense_rc_one py_slice_to_def)
  have preT: "search_text sample_env db_rc_pc [82, 67] 1 = py_slice_to ?T 1 \<and>
      ((0::int) \<le> 1 \<and> nat 1 \<le> length ?T \<or> set (terms_of ?V) \<subseteq> set (terms_of ?T))"
    by (simp add: sparse_rc_one py_slice_to_def)
  from ext condV preV have one:
    "hybrid_search sample_env db_rc_pc [82, 67] 1 1 = search_vector sample_env db_rc_pc [82, 67] 1"
    by blast
  from ext condT preT have zero:
    "hybrid_search sample_env db_rc_pc [82, 67] 1 0 =
       Inr (search_text sample_env db_rc_pc [82, 67] 1)"
    by blast
  from ext condT obtain Z where
    Z: "hybrid_search sample_env db_rc_pc [82, 67] 1 0 = Inr (py_slice_to (?T @ Z) 1)"
       "set (terms_of Z) = set (terms_of ?V) - set (terms_of ?T)" "\<forall>z \<in> set Z. snd z = 0"
    by blast
  have "set (terms_of ?V) - set (terms_of ?T) = {[80, 67]}"
    by (auto simp: terms_of_def record_of_def)
  with Z have "\<exists>Z. hybrid_search sample_env db_rc_pc [82, 67] 1 0 =
          Inr (py_slice_to (?T @ Z) 1) \<and>
        set (terms_of Z) = {[80, 67]} \<and> (\<forall>z \<in> set Z. snd z = 0)"
    by auto
  with one zero show ?thesis
    by (simp add: dense_rc_one sparse_rc_one)
qed

text \<open>
  C2 (as stated) fails: for a query that no term contains, the sparse search returns
  nothing, and the hybrid search with \<open>alpha = 0\<close> returns a record that the dense search
  found, with score 0.
\<close>

theorem hybrid_search_alpha_zero_returns_dense_rows:
  "search_text sample_env db_rc_pc [88, 88] 1 = [] \<and>
   hybrid_search sample_env db_rc_pc [88, 88] 1 0 = Inr [(record_of 0 [82, 67], 0)]"
  by (simp add: hybrid_search_def merge_results_def search_vector_def search_text_def
      db_rc_pc_def sample_env_def flat_l2_search_def l2_distance_def py_index_def
      substring_search_def doc_of_def record_of_def set_add_def sort_reverse_def
      py_slice_to_def)

end
